theory Spec2Isabelle
  imports Main "HOL-Library.Sublist" "HOL-Library.AList"
begin

section \<open>Data model (types.ts)\<close>

text \<open>
  A JavaScript number reaches the generated text only through template-literal
  interpolation, so a numeric constraint is represented by the text that interpolation
  yields for it (\<open>3\<close> is \<open>''3''\<close>, \<open>0.5\<close> is \<open>''0.5''\<close>).
\<close>

type_synonym number = string

text \<open>
  The interface \<open>Schema\<close>: every field is optional, \<open>None\<close> is an absent (undefined)
  field. A \<open>Record<string, Schema>\<close> is the list of its entries in the order in which
  \<open>Object.entries\<close> enumerates them. \<open>additionalProperties\<close> is \<open>Inl b\<close> for a boolean and
  \<open>Inr s\<close> for a schema. The field \<open>$ref\<close> is called \<open>ref\<close> and \<open>enum\<close> is called
  \<open>enum_values\<close>.
\<close>

datatype schema = Schema
  (type: "string option")
  (properties: "(string \<times> schema) list option")
  (required: "string list option")
  (items: "schema option")
  (ref: "string option")
  (allOf: "schema list option")
  (oneOf: "schema list option")
  (anyOf: "schema list option")
  (enum_values: "string list option")
  (format: "string option")
  (pattern: "string option")
  (minLength: "number option")
  (maxLength: "number option")
  (minimum: "number option")
  (maximum: "number option")
  (minItems: "number option")
  (maxItems: "number option")
  (description: "string option")
  (additionalProperties: "(bool + schema) option")

text \<open>The schema with no field at all, \<open>{}\<close>.\<close>

definition empty_schema :: schema where
  "empty_schema = Schema None None None None None None None None None None None None None
     None None None None None None"

section \<open>JavaScript values and built-ins used by the generator\<close>

text \<open>
  A value of type \<open>string | undefined\<close>. \<open>convertType\<close> is declared to return \<open>string\<close>,
  but \<open>schemas[0]\<close> on an empty array is \<open>undefined\<close>.
\<close>

datatype js_string = Str string | Undefined

text \<open>Template-literal interpolation \<open>`${v}`\<close>: \<open>undefined\<close> is written out.\<close>

fun interp :: "js_string \<Rightarrow> string" where
  "interp (Str s) = s"
| "interp Undefined = ''undefined''"

text \<open>\<open>Array.prototype.join\<close> turns an \<open>undefined\<close> element into the empty string.\<close>

fun join_item :: "js_string \<Rightarrow> string" where
  "join_item (Str s) = s"
| "join_item Undefined = []"

fun join :: "string \<Rightarrow> string list \<Rightarrow> string" where
  "join sep [] = []"
| "join sep [x] = x"
| "join sep (x # y # ys) = x @ sep @ join sep (y # ys)"

text \<open>Truthiness of an optional string: absent and empty are both falsy.\<close>

fun truthy :: "string option \<Rightarrow> string option" where
  "truthy None = None"
| "truthy (Some s) = (if s = [] then None else Some s)"

text \<open>\<open>s.split('/').pop()\<close>: the text after the last slash.\<close>

definition split_pop :: "string \<Rightarrow> string" where
  "split_pop s = rev (takeWhile (\<lambda>c. c \<noteq> CHR ''/'') (rev s))"

text \<open>\<open>Set.prototype.add\<close> on a set kept in insertion order.\<close>

definition set_add :: "string list \<Rightarrow> string \<Rightarrow> string list" where
  "set_add xs x = (if x \<in> set xs then xs else xs @ [x])"

section \<open>Type converter (utils/typeConverter.ts)\<close>

text \<open>
  The private field \<open>dependencies\<close>, a \<open>Map<string, Set<string>>\<close>; each set is kept in
  insertion order, the order in which \<open>forEach\<close> visits it.
\<close>

type_synonym dependencies = "string \<rightharpoonup> string list"

text \<open>
  The property read \<open>this.schemas[name]\<close>. The component table is a plain object (made by
  \<open>JSON.parse\<close>, or the literal \<open>{}\<close>), so the read yields the own property when the table
  has one and otherwise what the name denotes on \<open>Object.prototype\<close>. The inherited values
  (eleven methods, and for \<open>__proto__\<close> the prototype object itself) are truthy and have
  none of the fields that the generator reads from a schema: they are read like the schema
  without fields. For every other name the read is \<open>undefined\<close>.
\<close>

definition object_prototype_keys :: "string list" where
  "object_prototype_keys =
     [''constructor'', ''__defineGetter__'', ''__defineSetter__'', ''hasOwnProperty'',
      ''__lookupGetter__'', ''__lookupSetter__'', ''isPrototypeOf'', ''propertyIsEnumerable'',
      ''toString'', ''valueOf'', ''__proto__'', ''toLocaleString'']"

definition schemas_get :: "(string \<times> schema) list \<Rightarrow> string \<Rightarrow> schema option" where
  "schemas_get schemas name =
     (case map_of schemas name of
        Some s \<Rightarrow> Some s
      | None \<Rightarrow> if name \<in> set object_prototype_keys then Some empty_schema else None)"

definition track :: "dependencies \<Rightarrow> string \<Rightarrow> string \<Rightarrow> dependencies" where
  "track deps schemaName refName =
     (case deps schemaName of
        None \<Rightarrow> deps(schemaName \<mapsto> [refName])
      | Some s \<Rightarrow> deps(schemaName \<mapsto> set_add s refName))"

text \<open>
  The chain of \<open>if (property.format === ...) zodString += ...\<close> in \<open>convertString\<close>: the
  format check appended to \<open>z.string()\<close>.
\<close>

definition format_check :: "schema \<Rightarrow> string" where
  "format_check property =
     (if format property = Some ''date-time'' then ''.datetime()''
      else if format property = Some ''date'' then ''.date()''
      else if format property = Some ''email'' then ''.email()''
      else if format property = Some ''uuid'' then ''.uuid()''
      else if format property = Some ''uri'' \<or> format property = Some ''url''
        then ''.url()''
      else [])"

definition convertString :: "schema \<Rightarrow> string" where
  "convertString property =
     (case enum_values property of
        Some es \<Rightarrow> ''z.enum(['' @ join '', '' (map (\<lambda>e. ''\"'' @ e @ ''\"'') es) @ ''])''
      | None \<Rightarrow>
          ''z.string()''
          @ format_check property
          @ (case truthy (pattern property) of
               Some pat \<Rightarrow> ''.regex(/'' @ pat @ ''/)'' | None \<Rightarrow> [])
          @ (case minLength property of Some n \<Rightarrow> ''.min('' @ n @ '')'' | None \<Rightarrow> [])
          @ (case maxLength property of Some n \<Rightarrow> ''.max('' @ n @ '')'' | None \<Rightarrow> []))"

definition convertNumber :: "schema \<Rightarrow> string \<Rightarrow> string" where
  "convertNumber property ty =
     (if ty = ''integer'' then ''z.number().int()'' else ''z.number()'')
     @ (case minimum property of Some n \<Rightarrow> ''.min('' @ n @ '')'' | None \<Rightarrow> [])
     @ (case maximum property of Some n \<Rightarrow> ''.max('' @ n @ '')'' | None \<Rightarrow> [])"

text \<open>
  \<open>convertType\<close> with the methods it calls recursively. The converter's field
  \<open>dependencies\<close> is passed in and returned. \<open>convertList\<close> is
  \<open>list.map(s => this.convertType(s, currentPath, schemaName, isInline))\<close> and
  \<open>convertProps\<close> is the \<open>map\<close> over \<open>Object.entries(property.properties)\<close> in
  \<open>convertObject\<close>; both visit the elements from left to right.
\<close>

function
  convertType :: "(string \<times> schema) list \<Rightarrow> dependencies \<Rightarrow> schema option \<Rightarrow> string list
    \<Rightarrow> string \<Rightarrow> bool \<Rightarrow> js_string \<times> dependencies"
and
  convertList :: "(string \<times> schema) list \<Rightarrow> dependencies \<Rightarrow> schema list \<Rightarrow> string list
    \<Rightarrow> string \<Rightarrow> bool \<Rightarrow> js_string list \<times> dependencies"
and
  convertArray :: "(string \<times> schema) list \<Rightarrow> dependencies \<Rightarrow> schema \<Rightarrow> string list
    \<Rightarrow> string \<Rightarrow> bool \<Rightarrow> string \<times> dependencies"
and
  convertProps :: "(string \<times> schema) list \<Rightarrow> dependencies \<Rightarrow> string list option
    \<Rightarrow> (string \<times> schema) list \<Rightarrow> string list \<Rightarrow> string \<Rightarrow> bool \<Rightarrow> string list \<times> dependencies"
and
  convertObject :: "(string \<times> schema) list \<Rightarrow> dependencies \<Rightarrow> schema \<Rightarrow> string list
    \<Rightarrow> string \<Rightarrow> bool \<Rightarrow> string \<times> dependencies"
where
  "convertType schemas deps property currentPath schemaName isInline =
     (case property of
        None \<Rightarrow> (Str ''z.unknown()'', deps)
      | Some p \<Rightarrow>
         (case truthy (ref p) of
            Some r \<Rightarrow>
              (let refName = split_pop r;
                   deps1 = (if schemaName \<noteq> [] \<and> refName \<noteq> [] \<and> \<not> isInline
                            then track deps schemaName refName else deps)
               in if refName \<in> set currentPath
                  then (Str (''z.lazy(() => '' @ refName @ '')''), deps1)
                  else if isInline \<and> schemas_get schemas refName \<noteq> None
                  then convertType schemas deps1 (schemas_get schemas refName)
                         (currentPath @ [refName]) refName True
                  else (Str refName, deps1))
          | None \<Rightarrow>
         (case allOf p of
            Some xs \<Rightarrow>
              (case convertList schemas deps xs currentPath schemaName isInline of
                 (ss, deps1) \<Rightarrow>
                   (if length ss > 1
                    then Str (''z.intersection('' @ join '', '' (map join_item ss) @ '')'')
                    else (case ss of [] \<Rightarrow> Undefined | s # _ \<Rightarrow> s), deps1))
          | None \<Rightarrow>
         (case oneOf p of
            Some xs \<Rightarrow>
              (case convertList schemas deps xs currentPath schemaName isInline of
                 (ss, deps1) \<Rightarrow>
                   (Str (''z.union(['' @ join '', '' (map join_item ss) @ ''])''), deps1))
          | None \<Rightarrow>
         (case anyOf p of
            Some xs \<Rightarrow>
              (case convertList schemas deps xs currentPath schemaName isInline of
                 (ss, deps1) \<Rightarrow>
                   (Str (''z.union(['' @ join '', '' (map join_item ss) @ ''])''), deps1))
          | None \<Rightarrow>
         (if type p = Some ''string'' then (Str (convertString p), deps)
          else if type p = Some ''number'' then (Str (convertNumber p ''number''), deps)
          else if type p = Some ''integer'' then (Str (convertNumber p ''integer''), deps)
          else if type p = Some ''boolean'' then (Str ''z.boolean()'', deps)
          else if type p = Some ''array''
            then (case convertArray schemas deps p currentPath schemaName isInline of
                    (s, deps1) \<Rightarrow> (Str s, deps1))
          else if type p = Some ''object''
            then (case convertObject schemas deps p currentPath schemaName isInline of
                    (s, deps1) \<Rightarrow> (Str s, deps1))
          else if type p = Some ''null'' then (Str ''z.null()'', deps)
          else (Str ''z.unknown()'', deps)))))))"
| "convertList schemas deps [] currentPath schemaName isInline = ([], deps)"
| "convertList schemas deps (x # xs) currentPath schemaName isInline =
     (case convertType schemas deps (Some x) currentPath schemaName isInline of
        (s, deps1) \<Rightarrow>
          (case convertList schemas deps1 xs currentPath schemaName isInline of
             (ss, deps2) \<Rightarrow> (s # ss, deps2)))"
| "convertArray schemas deps property currentPath schemaName isInline =
     (case convertType schemas deps (items property) currentPath schemaName isInline of
        (itemsSchema, deps1) \<Rightarrow>
          (''z.array('' @ interp itemsSchema @ '')''
           @ (case minItems property of Some n \<Rightarrow> ''.min('' @ n @ '')'' | None \<Rightarrow> [])
           @ (case maxItems property of Some n \<Rightarrow> ''.max('' @ n @ '')'' | None \<Rightarrow> []),
           deps1))"
| "convertProps schemas deps req [] currentPath schemaName isInline = ([], deps)"
| "convertProps schemas deps req ((key, val) # ps) currentPath schemaName isInline =
     (let isRequired = (case req of Some r \<Rightarrow> key \<in> set r | None \<Rightarrow> False)
      in case convertType schemas deps (Some val) currentPath schemaName isInline of
           (zodType, deps1) \<Rightarrow>
             (case convertProps schemas deps1 req ps currentPath schemaName isInline of
                (ls, deps2) \<Rightarrow>
                  ((''  '' @ key @ '': '' @ interp zodType
                    @ (if isRequired then [] else ''.optional()'')) # ls, deps2)))"
| "convertObject schemas deps property currentPath schemaName isInline =
     (case properties property of
        Some ps \<Rightarrow>
          (case convertProps schemas deps (required property) ps currentPath schemaName
                  isInline of
             (props, deps1) \<Rightarrow>
               (let zodObject = ''z.object({'' @ [CHR 0x0A] @ join ('','' @ [CHR 0x0A]) props
                                @ [CHR 0x0A] @ ''})''
                in case additionalProperties property of
                     Some (Inl False) \<Rightarrow> (zodObject @ ''.strict()'', deps1)
                   | Some (Inl True) \<Rightarrow> (zodObject @ ''.catchall(z.unknown())'', deps1)
                   | Some (Inr a) \<Rightarrow>
                       (case convertType schemas deps1 (Some a) currentPath schemaName
                               isInline of
                          (additionalSchema, deps2) \<Rightarrow>
                            (zodObject @ ''.catchall('' @ interp additionalSchema @ '')'',
                             deps2))
                   | None \<Rightarrow> (zodObject, deps1)))
      | None \<Rightarrow> (''z.record(z.unknown())'', deps))"
  by pat_completeness auto

text \<open>
  Termination: an inlined reference pushes a name onto \<open>currentPath\<close> that was not there
  and that the component table has or inherits, and every other call descends into the
  schema.
\<close>

definition unvisited :: "(string \<times> schema) list \<Rightarrow> string list \<Rightarrow> nat" where
  "unvisited schemas currentPath =
     card ((fst ` set schemas \<union> set object_prototype_keys) - set currentPath)"

fun size_opt :: "schema option \<Rightarrow> nat" where
  "size_opt None = 0"
| "size_opt (Some p) = size p"

lemma schemas_get_own: "map_of schemas name = Some s \<Longrightarrow> schemas_get schemas name = Some s"
  by (simp add: schemas_get_def)

lemma schemas_get_names:
  "schemas_get schemas name \<noteq> None \<Longrightarrow> name \<in> fst ` set schemas \<union> set object_prototype_keys"
  by (auto simp: schemas_get_def split: option.splits if_splits dest!: map_of_SomeD
      intro: rev_image_eqI)

lemma schemas_get_table: "n \<in> set (map fst schemas) \<Longrightarrow> schemas_get schemas n \<noteq> None"
  by (cases "map_of schemas n") (auto simp: schemas_get_def map_of_eq_None_iff)

lemma unvisited_less:
  assumes "x \<notin> set currentPath" and "schemas_get schemas x \<noteq> None"
  shows "unvisited schemas (currentPath @ [x]) < unvisited schemas currentPath"
proof -
  from assms(2) have "x \<in> fst ` set schemas \<union> set object_prototype_keys"
    by (rule schemas_get_names)
  with assms(1) have "(fst ` set schemas \<union> set object_prototype_keys) - set (currentPath @ [x])
      \<subset> (fst ` set schemas \<union> set object_prototype_keys) - set currentPath"
    by auto
  then show ?thesis
    unfolding unvisited_def by (intro psubset_card_mono) auto
qed

lemma size_opt_items: "size_opt (items p) < size p"
  by (cases p; cases "items p") simp_all

lemma size_allOf: "allOf p = Some xs \<Longrightarrow> size_list size xs < size p"
  by (cases p) simp

lemma size_oneOf: "oneOf p = Some xs \<Longrightarrow> size_list size xs < size p"
  by (cases p) simp

lemma size_anyOf: "anyOf p = Some xs \<Longrightarrow> size_list size xs < size p"
  by (cases p) simp

lemma size_properties:
  "properties p = Some ps \<Longrightarrow> size_list (size_prod (\<lambda>x. 0) size) ps < size p"
  by (cases p) simp

lemma size_additionalProperties:
  "additionalProperties p = Some (Inr a) \<Longrightarrow> size a < size p"
  by (cases p) simp

termination convertType
  apply (relation "inv_image (less_than <*lex*> less_than <*lex*> less_than)
    (\<lambda>x. case x of
       Inl (Inl (schemas, deps, p, path, n, i)) \<Rightarrow>
         (unvisited schemas path, size_opt p, 1::nat)
     | Inl (Inr (schemas, deps, xs, path, n, i)) \<Rightarrow>
         (unvisited schemas path, size_list size xs, 0)
     | Inr (Inl (schemas, deps, p, path, n, i)) \<Rightarrow>
         (unvisited schemas path, size p, 0)
     | Inr (Inr (Inl (schemas, deps, req, ps, path, n, i))) \<Rightarrow>
         (unvisited schemas path, size_list (size_prod (\<lambda>x. 0) size) ps, 0)
     | Inr (Inr (Inr (schemas, deps, p, path, n, i))) \<Rightarrow>
         (unvisited schemas path, size p, 0))")
  subgoal by (intro wf_inv_image wf_lex_prod wf_less_than)
  apply (simp_all add: unvisited_less size_allOf size_oneOf size_anyOf size_properties
      size_additionalProperties size_opt_items)
  done

declare convertType.simps [simp del]
declare convertArray.simps [simp del]
declare convertObject.simps [simp del]

text \<open>\<open>getDependencies\<close>: the recorded set, or a new empty one.\<close>

definition getDependencies :: "dependencies \<Rightarrow> string \<Rightarrow> string list" where
  "getDependencies deps schemaName = (case deps schemaName of Some s \<Rightarrow> s | None \<Rightarrow> [])"

section \<open>Helpers (utils/helpers.ts)\<close>

text \<open>
  The character classes \<open>[A-Z]\<close> and \<open>[a-z]\<close>, and \<open>toLowerCase\<close> and \<open>toUpperCase\<close> on
  ASCII text: the letters of these classes change case and every other character is
  left as it is. (\<open>generateDescription\<close> applies them to letters of these classes only; a
  method name with letters outside ASCII is outside this model.)
\<close>

definition is_upper :: "char \<Rightarrow> bool" where
  "is_upper c \<longleftrightarrow> 65 \<le> (of_char c :: nat) \<and> (of_char c :: nat) \<le> 90"

definition is_lower :: "char \<Rightarrow> bool" where
  "is_lower c \<longleftrightarrow> 97 \<le> (of_char c :: nat) \<and> (of_char c :: nat) \<le> 122"

definition toLowerCase :: "string \<Rightarrow> string" where
  "toLowerCase s = map (\<lambda>c. if is_upper c then char_of (of_char c + (32 :: nat)) else c) s"

definition toUpperCase :: "string \<Rightarrow> string" where
  "toUpperCase s = map (\<lambda>c. if is_lower c then char_of (of_char c - (32 :: nat)) else c) s"

text \<open>
  \<open>name.match(/[A-Z][a-z]+|[A-Z]+(?=[A-Z])|[a-z]+/g)\<close>: at each position the three
  alternatives are tried in order. The second one, a run of capitals followed by a
  capital, matches a run of at least two capitals without its last letter. Where none
  matches, one character is skipped.
\<close>

function match_words :: "string \<Rightarrow> string list" where
  "match_words [] = []"
| "match_words (c # cs) =
     (if is_upper c \<and> cs \<noteq> [] \<and> is_lower (hd cs)
      then (c # takeWhile is_lower cs) # match_words (dropWhile is_lower cs)
      else if is_upper c \<and> cs \<noteq> [] \<and> is_upper (hd cs)
      then (c # butlast (takeWhile is_upper cs))
           # match_words (drop (length (takeWhile is_upper cs) - 1) cs)
      else if is_lower c
      then (c # takeWhile is_lower cs) # match_words (dropWhile is_lower cs)
      else match_words cs)"
  by pat_completeness auto
termination
  by (relation "measure length") (auto simp: length_dropWhile_le less_Suc_eq_le)

definition generateDescription :: "string \<Rightarrow> string" where
  "generateDescription name =
     (let description = toLowerCase (join '' '' (match_words name))
      in toUpperCase (take 1 description) @ drop 1 description)"

function getPropertyType :: "schema \<Rightarrow> string" where
  "getPropertyType propSchema =
     (case truthy (ref propSchema) of
        Some r \<Rightarrow> split_pop r
      | None \<Rightarrow>
          if type propSchema = Some ''string'' then ''string''
          else if type propSchema = Some ''number'' then ''number''
          else if type propSchema = Some ''integer'' then ''number''
          else if type propSchema = Some ''boolean'' then ''boolean''
          else if type propSchema = Some ''array''
            then (case items propSchema of
                    Some i \<Rightarrow> getPropertyType i | None \<Rightarrow> ''any'') @ ''[]''
          else if type propSchema = Some ''object'' then ''object''
          else ''any'')"
  by pat_completeness auto
termination
proof (relation "measure size")
  fix propSchema i
  assume "items propSchema = Some i"
  then have "size i < size propSchema"
    using size_opt_items [of propSchema] by simp
  then show "(i, propSchema) \<in> measure size"
    by simp
qed simp

declare getPropertyType.simps [simp del]




lemma size_member: "x \<in> set xs \<Longrightarrow> size_list size xs < n \<Longrightarrow> size (x::schema) < n"
  using size_list_estimation' [of x xs "size x" size] by simp

lemma size_member_snd:
  "x \<in> set ps \<Longrightarrow> size_list (size_prod (\<lambda>x. 0) size) ps < n
    \<Longrightarrow> size (snd x :: schema) < n"
  using size_list_estimation' [of x ps "size (snd x)" "size_prod (\<lambda>x. 0) size"]
  by (cases x) simp



section \<open>Component generator (generators/componentGenerator.ts)\<close>

record generated_file =
  dirName :: "string option"
  fileName :: string
  content :: string

text \<open>
  The fields of a \<open>ComponentGenerator\<close> that change: the \<open>dependencies\<close> of its
  \<open>typeConverter\<close>, \<open>generatedSchemas\<close>, \<open>processingStack\<close>, and the lines it has written
  with \<open>console.log\<close>. In the generated text a line break is the character 10.
\<close>

record component_generator =
  typeConverter :: dependencies
  generatedSchemas :: "string \<rightharpoonup> generated_file"
  processingStack :: "string set"
  console :: "string list"

definition new_ComponentGenerator :: component_generator where
  "new_ComponentGenerator =
     \<lparr>typeConverter = Map.empty, generatedSchemas = Map.empty, processingStack = {},
      console = []\<rparr>"

definition import_dependency :: "string \<Rightarrow> string" where
  "import_dependency depName =
     ''import { '' @ depName @ '' } from './'' @ depName @ ''.js';''"

definition property_doc :: "string list \<Rightarrow> string \<times> schema \<Rightarrow> string" where
  "property_doc req entry =
     (case entry of
        (propName, propSchema) \<Rightarrow>
          '' * @property {'' @ getPropertyType propSchema @ ''} '' @ propName
          @ (if propName \<in> set req then [] else ''?'') @ '' - ''
          @ (case truthy (description propSchema) of Some d \<Rightarrow> d | None \<Rightarrow> propName))"

definition generateSchemaFile ::
  "(string \<times> schema) list \<Rightarrow> string \<Rightarrow> component_generator
    \<Rightarrow> generated_file option \<times> component_generator" where
  "generateSchemaFile schemas name st =
     (case generatedSchemas st name of
        Some cached \<Rightarrow> (Some cached, st)
      | None \<Rightarrow>
          if name \<in> processingStack st
          then (None, st\<lparr>console := console st
                  @ [''Detected circular reference for schema: '' @ name]\<rparr>)
          else
            (case schemas_get schemas name of
               None \<Rightarrow> (None, st)
             | Some schema \<Rightarrow>
                 (case convertType schemas (typeConverter st) (Some schema) [name] name False of
                    (zodSchema, deps1) \<Rightarrow>
                      (let imports = ''import { z } from 'zod';''
                             # map import_dependency
                                 (filter (\<lambda>depName. schemas_get schemas depName \<noteq> None)
                                    (getDependencies deps1 name));
                           descr = (case truthy (description schema) of
                                      Some d \<Rightarrow> d | None \<Rightarrow> generateDescription name);
                           props = (case properties schema of Some ps \<Rightarrow> ps | None \<Rightarrow> []);
                           req = (case required schema of Some r \<Rightarrow> r | None \<Rightarrow> []);
                           jsDoc = [''/**'', '' * '' @ descr]
                             @ (if length props > 0
                                then '' *'' # map (property_doc req) props else [])
                             @ ['' */''];
                           result = \<lparr>dirName = None, fileName = name @ ''.ts'',
                             content = join [CHR 0x0A]
                               (imports @ [[]] @ jsDoc
                                @ [''export const '' @ name @ '' = '' @ interp zodSchema @ '';'',
                                   ''export type '' @ name @ ''Type = z.infer<typeof '' @ name
                                     @ ''>;'',
                                   []])\<rparr>
                       in (Some result,
                           st\<lparr>typeConverter := deps1,
                              generatedSchemas := (generatedSchemas st)(name \<mapsto> result),
                              processingStack := insert name (processingStack st) - {name}\<rparr>)))))"

text \<open>
  The \<open>forEach\<close> of \<open>generateComponentSchemas\<close> over the names that remain, with the
  generator and the array \<open>files\<close> as they are at that point.
\<close>

fun forEach_name ::
  "(string \<times> schema) list \<Rightarrow> string list \<Rightarrow> component_generator \<Rightarrow> generated_file list
    \<Rightarrow> generated_file list \<times> component_generator" where
  "forEach_name schemas [] st files = (files, st)"
| "forEach_name schemas (name # names) st files =
     (case generateSchemaFile schemas name st of
        (None, st1) \<Rightarrow> forEach_name schemas names st1 files
      | (Some schemaFile, st1) \<Rightarrow>
          forEach_name schemas names st1
            (files @ [\<lparr>dirName = Some ''_components'', fileName = fileName schemaFile,
                        content = content schemaFile\<rparr>]))"

definition generateComponentSchemas ::
  "(string \<times> schema) list \<Rightarrow> component_generator
    \<Rightarrow> generated_file list \<times> component_generator" where
  "generateComponentSchemas schemas st = forEach_name schemas (map fst schemas) st []"

section \<open>Operation generator (generators/operationGenerator.ts)\<close>

text \<open>
  The interfaces \<open>Response\<close>, \<open>Operation\<close> and \<open>OpenAPIDocument\<close>, reduced to what the
  generator reads. \<open>response_schema\<close> is \<open>content?.['application/json']?.schema\<close>,
  \<open>requestBody\<close> is \<open>requestBody?.content?.['application/json']?.schema\<close> and
  \<open>components_schemas\<close> is \<open>components?.schemas\<close>. A value of a path item that is not an
  object is \<open>None\<close>.
\<close>

record response =
  response_description :: "string option"
  response_schema :: "schema option"

record operation =
  operationId :: "string option"
  summary :: "string option"
  requestBody :: "schema option"
  responses :: "(string \<times> response) list option"


text \<open>
  The interface \<open>OperationSchema\<close>. An entry of \<open>os_responses\<close> is a status code with
  the description and the schema stored under it.
\<close>

record operation_schema =
  os_operationId :: string
  os_summary :: string
  os_method :: string
  os_path :: string
  os_request :: "schema option"
  os_responses :: "(string \<times> string \<times> schema) list"

text \<open>
  Assignment \<open>obj[key] = value\<close> on an object that starts as the literal \<open>{}\<close> and is
  changed by such assignments only, kept in the order in which its own keys are
  enumerated: keys that are array indices (canonical decimal numerals below
  \<open>2^32 - 1\<close>) come first in ascending numeric order, then the other keys in the order
  in which they were added. A key that exists keeps its place. The key \<open>__proto__\<close> is
  the accessor inherited from \<open>Object.prototype\<close>: the assignment calls its setter and adds no
  own property, so the entries are as before.
\<close>

definition is_digit :: "char \<Rightarrow> bool" where
  "is_digit c \<longleftrightarrow> 48 \<le> (of_char c :: nat) \<and> (of_char c :: nat) \<le> 57"

definition digits_value :: "string \<Rightarrow> int" where
  "digits_value s = foldl (\<lambda>n c. 10 * n + (of_char c - 48)) 0 s"

definition is_array_index :: "string \<Rightarrow> bool" where
  "is_array_index s \<longleftrightarrow>
     s \<noteq> [] \<and> list_all is_digit s \<and> (hd s \<noteq> CHR ''0'' \<or> s = ''0'')
     \<and> digits_value s < 4294967295"

fun insert_index :: "string \<Rightarrow> 'a \<Rightarrow> (string \<times> 'a) list \<Rightarrow> (string \<times> 'a) list" where
  "insert_index k v [] = [(k, v)]"
| "insert_index k v (e # es) =
     (if is_array_index (fst e) \<and> digits_value (fst e) < digits_value k
      then e # insert_index k v es
      else (k, v) # e # es)"

definition js_set :: "(string \<times> 'a) list \<Rightarrow> string \<Rightarrow> 'a \<Rightarrow> (string \<times> 'a) list" where
  "js_set obj k v =
     (if k = ''__proto__'' then obj
      else if k \<in> set (map fst obj) then AList.update k v obj
      else if is_array_index k then insert_index k v obj
      else obj @ [(k, v)])"

text \<open>
  The first pass over the path table. \<open>operationSchemas\<close> is a \<open>Map\<close>, kept in
  insertion order; \<open>add_response\<close> is the body of the loop over the responses of one
  operation and \<open>process_operation\<close> the body of the loop over the entries of one path
  item.
\<close>

definition add_response :: "string \<times> response \<Rightarrow> operation_schema \<Rightarrow> operation_schema" where
  "add_response entry opSchema =
     (case entry of
        (statusCode, resp) \<Rightarrow>
          (case response_schema resp of
             Some s \<Rightarrow>
               opSchema\<lparr>os_responses :=
                 js_set (os_responses opSchema) statusCode
                   (case truthy (response_description resp) of
                      Some d \<Rightarrow> d | None \<Rightarrow> ''Response '' @ statusCode,
                    s)\<rparr>
           | None \<Rightarrow> opSchema))"

definition process_operation ::
  "string \<Rightarrow> string \<times> operation option \<Rightarrow> (string \<times> operation_schema) list
    \<Rightarrow> (string \<times> operation_schema) list" where
  "process_operation pathName entry operationSchemas =
     (case entry of
        (method, None) \<Rightarrow> operationSchemas
      | (method, Some operation) \<Rightarrow>
          (case truthy (operationId operation) of
             None \<Rightarrow> operationSchemas
           | Some oid \<Rightarrow>
               (let created =
                      (if map_of operationSchemas oid = None
                       then AList.update oid
                              \<lparr>os_operationId = oid,
                               os_summary = (case truthy (summary operation) of
                                               Some t \<Rightarrow> t | None \<Rightarrow> generateDescription oid),
                               os_method = toUpperCase method,
                               os_path = pathName,
                               os_request = None,
                               os_responses = []\<rparr> operationSchemas
                       else operationSchemas)
                in case map_of created oid of
                     None \<Rightarrow> created
                   | Some opSchema \<Rightarrow>
                       (let o1 = (case requestBody operation of
                                    Some requestSchema \<Rightarrow>
                                      opSchema\<lparr>os_request := Some requestSchema\<rparr>
                                  | None \<Rightarrow> opSchema);
                            o2 = (case responses operation of
                                    Some rs \<Rightarrow> fold add_response rs o1
                                  | None \<Rightarrow> o1)
                        in AList.update oid o2 created))))"

definition collect_operations ::
  "(string \<times> (string \<times> operation option) list) list \<Rightarrow> (string \<times> operation_schema) list"
  where
  "collect_operations ps =
     fold (\<lambda>pathEntry acc. fold (process_operation (fst pathEntry)) (snd pathEntry) acc) ps []"














section \<open>Generator (generator.ts)\<close>


section \<open>References that the converter visits\<close>

text \<open>
  \<open>plain s\<close>: the node \<open>s\<close> is neither a reference nor a composition, so that
  \<open>convertType\<close> dispatches on its type. \<open>refers s n\<close>: the node \<open>s\<close> contains a reference
  with target name \<open>n\<close> at a place that \<open>convertType\<close> visits when it does not inline:
  the node itself, a child of its composition, the items of an array, a property of an
  object or the schema of its additional properties.
\<close>

definition plain :: "schema \<Rightarrow> bool" where
  "plain s \<longleftrightarrow> truthy (ref s) = None \<and> allOf s = None \<and> oneOf s = None \<and> anyOf s = None"

inductive refers :: "schema \<Rightarrow> string \<Rightarrow> bool" where
  direct: "truthy (ref s) = Some r \<Longrightarrow> refers s (split_pop r)"
| in_allOf: "truthy (ref s) = None \<Longrightarrow> allOf s = Some xs \<Longrightarrow> x \<in> set xs \<Longrightarrow> refers x n
    \<Longrightarrow> refers s n"
| in_oneOf: "truthy (ref s) = None \<Longrightarrow> allOf s = None \<Longrightarrow> oneOf s = Some xs \<Longrightarrow> x \<in> set xs
    \<Longrightarrow> refers x n \<Longrightarrow> refers s n"
| in_anyOf: "truthy (ref s) = None \<Longrightarrow> allOf s = None \<Longrightarrow> oneOf s = None \<Longrightarrow> anyOf s = Some xs
    \<Longrightarrow> x \<in> set xs \<Longrightarrow> refers x n \<Longrightarrow> refers s n"
| in_items: "plain s \<Longrightarrow> type s = Some ''array'' \<Longrightarrow> items s = Some i \<Longrightarrow> refers i n
    \<Longrightarrow> refers s n"
| in_properties: "plain s \<Longrightarrow> type s = Some ''object'' \<Longrightarrow> properties s = Some ps
    \<Longrightarrow> (k, v) \<in> set ps \<Longrightarrow> refers v n \<Longrightarrow> refers s n"
| in_additionalProperties: "plain s \<Longrightarrow> type s = Some ''object'' \<Longrightarrow> properties s = Some ps
    \<Longrightarrow> additionalProperties s = Some (Inr a) \<Longrightarrow> refers a n \<Longrightarrow> refers s n"


text \<open>
  \<open>visited s\<close>: the target names of the references that \<open>convertType\<close> reaches in the
  node \<open>s\<close> when it does not inline, in the order in which it reaches them.
  \<open>record_refs\<close> records them one after the other as dependencies of \<open>schemaName\<close>, under
  the condition \<open>schemaName && refName\<close> of the source.
\<close>

function visited :: "schema \<Rightarrow> string list" where
  "visited s =
     (case truthy (ref s) of
        Some r \<Rightarrow> [split_pop r]
      | None \<Rightarrow>
     (case allOf s of
        Some xs \<Rightarrow> concat (map visited xs)
      | None \<Rightarrow>
     (case oneOf s of
        Some xs \<Rightarrow> concat (map visited xs)
      | None \<Rightarrow>
     (case anyOf s of
        Some xs \<Rightarrow> concat (map visited xs)
      | None \<Rightarrow>
          if type s = Some ''array''
          then (case items s of Some i \<Rightarrow> visited i | None \<Rightarrow> [])
          else if type s = Some ''object''
          then (case properties s of
                  Some ps \<Rightarrow>
                    concat (map (\<lambda>e. visited (snd e)) ps)
                    @ (case additionalProperties s of
                         Some (Inr a) \<Rightarrow> visited a | _ \<Rightarrow> [])
                | None \<Rightarrow> [])
          else []))))"
  by pat_completeness auto
termination
  apply (relation "measure size")
  apply simp_all
  subgoal for s i using size_opt_items [of s] by simp
  subgoal by (blast intro: size_member_snd size_properties)
  subgoal by (simp add: size_additionalProperties)
  subgoal by (blast intro: size_member size_anyOf)
  subgoal by (blast intro: size_member size_oneOf)
  subgoal by (blast intro: size_member size_allOf)
  done

declare visited.simps [simp del]




section \<open>Schema nodes used in the examples\<close>

definition ref_node :: "string \<Rightarrow> schema" where
  "ref_node r = Schema None None None None (Some r) None None None None None None None None
     None None None None None None"

definition allOf_node :: "schema list \<Rightarrow> schema" where
  "allOf_node xs = Schema None None None None None (Some xs) None None None None None None None
     None None None None None None"

definition oneOf_node :: "schema list \<Rightarrow> schema" where
  "oneOf_node xs = Schema None None None None None None (Some xs) None None None None None None
     None None None None None None"

definition anyOf_node :: "schema list \<Rightarrow> schema" where
  "anyOf_node xs = Schema None None None None None None None (Some xs) None None None None None
     None None None None None None"

definition string_node :: schema where
  "string_node = Schema (Some ''string'') None None None None None None None None None None None
     None None None None None None None"

definition object_node :: "(string \<times> schema) list \<Rightarrow> string list \<Rightarrow> schema" where
  "object_node ps req = Schema (Some ''object'') (Some ps) (Some req) None None None None None
     None None None None None None None None None None None"

section \<open>Cycle breaking in the type converter\<close>

text \<open>
  C1. A reference whose target name is already in \<open>currentPath\<close> is not expanded:
  \<open>convertType\<close> returns the deferred validator \<open>z.lazy(() => target)\<close>, whatever the length
  of the path and in both modes. \<open>convertType\<close> is a total function (its termination is
  proved above), and here it returns without a recursive call. The dependency is recorded
  first, under the condition of the source.
\<close>

theorem convertType_cycle_lazy:
  assumes "truthy (ref p) = Some r" and "split_pop r \<in> set currentPath"
  shows "convertType schemas deps (Some p) currentPath schemaName isInline =
    (Str (''z.lazy(() => '' @ split_pop r @ '')''),
     if schemaName \<noteq> [] \<and> split_pop r \<noteq> [] \<and> \<not> isInline
     then track deps schemaName (split_pop r) else deps)"
  using assms by (simp add: convertType.simps Let_def)

theorem convertType_cycle_lazy_witness:
  "truthy (ref (ref_node ''#/components/schemas/Shape'')) = Some ''#/components/schemas/Shape''
   \<and> split_pop ''#/components/schemas/Shape'' \<in> set [''Shape'']
   \<and> fst (convertType [] Map.empty (Some (ref_node ''#/components/schemas/Shape'')) [''Shape'']
         ''Shape'' False) = Str ''z.lazy(() => Shape)''"
proof -
  have a: "truthy (ref (ref_node ''#/components/schemas/Shape''))
      = Some ''#/components/schemas/Shape''"
    by (simp add: ref_node_def)
  have b: "split_pop ''#/components/schemas/Shape'' \<in> set [''Shape'']"
    by (simp add: split_pop_def)
  show ?thesis
    using a b convertType_cycle_lazy [OF a b, of "[]" Map.empty "''Shape''" False]
    by (simp add: split_pop_def)
qed

section \<open>Compositions\<close>

text \<open>
  C8. A one-of composition and an any-of composition over the same list of children,
  converted in the same context, give the same result (the same text and the same recorded
  dependencies): the union combinator over the converted children.
\<close>

theorem oneOf_anyOf_same_union:
  assumes "truthy (ref p) = None" and "allOf p = None" and "oneOf p = Some xs"
    and "truthy (ref q) = None" and "allOf q = None" and "oneOf q = None"
    and "anyOf q = Some xs"
  shows "convertType schemas deps (Some p) currentPath schemaName isInline =
           convertType schemas deps (Some q) currentPath schemaName isInline
         \<and> fst (convertType schemas deps (Some p) currentPath schemaName isInline) =
           Str (''z.union(['' @ join '', '' (map join_item
             (fst (convertList schemas deps xs currentPath schemaName isInline))) @ ''])'')"
  using assms by (simp add: convertType.simps split: prod.split)

theorem oneOf_anyOf_same_union_witness:
  "convertType [] Map.empty
     (Some (oneOf_node [string_node, ref_node ''#/components/schemas/A''])) [] ''S'' False =
   convertType [] Map.empty
     (Some (anyOf_node [string_node, ref_node ''#/components/schemas/A''])) [] ''S'' False
   \<and> fst (convertType [] Map.empty
       (Some (oneOf_node [string_node, ref_node ''#/components/schemas/A''])) [] ''S'' False)
      = Str ''z.union([z.string(), A])''"
  using oneOf_anyOf_same_union [of
      "oneOf_node [string_node, ref_node ''#/components/schemas/A'']"
      "[string_node, ref_node ''#/components/schemas/A'']"
      "anyOf_node [string_node, ref_node ''#/components/schemas/A'']"
      "[]" Map.empty "[]" "''S''" False]
  by (simp add: oneOf_node_def anyOf_node_def string_node_def ref_node_def convertType.simps
      convertString_def format_check_def split_pop_def Let_def)

text \<open>
  C3. A node without any type information, \<open>{}\<close>, is converted to \<open>z.unknown()\<close>. But for
  an all-of composition with an empty list of children, \<open>{allOf: []}\<close>, \<open>schemas[0]\<close> of
  the empty array is \<open>undefined\<close>: \<open>convertType\<close> returns no validator expression, and the
  artifact of a component \<open>X\<close> with this node reads \<open>export const X = undefined;\<close>.
\<close>

theorem empty_allOf_undefined:
  "convertType [] Map.empty (Some empty_schema) [] [] False = (Str ''z.unknown()'', Map.empty)
   \<and> convertType [] Map.empty (Some (allOf_node [])) [] [] False = (Undefined, Map.empty)
   \<and> map content (fst (generateComponentSchemas [(''X'', allOf_node [])]
           new_ComponentGenerator)) =
      [join [CHR 0x0A]
         [''import { z } from 'zod';'', [], ''/**'', '' * '', '' */'',
          ''export const X = undefined;'', ''export type XType = z.infer<typeof X>;'', []]]"
proof -
  have "convertType [] Map.empty (Some empty_schema) [] [] False
      = (Str ''z.unknown()'', Map.empty)"
    and "convertType [] Map.empty (Some (allOf_node [])) [] [] False = (Undefined, Map.empty)"
    by (simp_all add: convertType.simps empty_schema_def allOf_node_def)
  moreover have "map content (fst (generateComponentSchemas [(''X'', allOf_node [])]
           new_ComponentGenerator)) =
      [join [CHR 0x0A]
         [''import { z } from 'zod';'', [], ''/**'', '' * '', '' */'',
          ''export const X = undefined;'', ''export type XType = z.infer<typeof X>;'', []]]"
    by code_simp
  ultimately show ?thesis by simp
qed

section \<open>Constraint tokens in the emitted text\<close>

text \<open>
  A token occurs in a text when it is a contiguous part of it (\<open>sublist\<close>). The tokens
  that \<open>convertString\<close> can append to \<open>z.string()\<close>:
\<close>

definition constraint_tokens :: "string list" where
  "constraint_tokens =
     [''.datetime()'', ''.date()'', ''.email()'', ''.uuid()'', ''.url()'', ''.regex('',
      ''.min('', ''.max('']"

text \<open>The texts of the numeric constraints that a node declares.\<close>

definition numeric_texts :: "schema \<Rightarrow> number list" where
  "numeric_texts p =
     concat (map (\<lambda>v. case v of Some n \<Rightarrow> [n] | None \<Rightarrow> [])
       [minLength p, maxLength p, minimum p, maximum p, minItems p, maxItems p])"

text \<open>The pattern of a node, if it has one, does not itself contain a constraint token.\<close>

definition pattern_free :: "schema \<Rightarrow> bool" where
  "pattern_free p =
     (case pattern p of
        None \<Rightarrow> True
      | Some pat \<Rightarrow>
          \<not> sublist ''.regex('' pat \<and> \<not> sublist ''.min('' pat \<and> \<not> sublist ''.max('' pat)"

lemma sublist_sep:
  assumes "c \<notin> set tok"
  shows "sublist tok (a @ c # b) \<longleftrightarrow> sublist tok a \<or> sublist tok b"
proof
  assume "sublist tok (a @ c # b)"
  then consider "sublist tok a" | "sublist tok (c # b)"
    | xs1 xs2 where "tok = xs1 @ xs2" "suffix xs1 a" "prefix xs2 (c # b)"
    unfolding sublist_append by blast
  then show "sublist tok a \<or> sublist tok b"
  proof cases
    case 1
    then show ?thesis by simp
  next
    case 2
    then have "prefix tok (c # b) \<or> sublist tok b"
      by (simp add: sublist_Cons_right)
    with assms show ?thesis
      by (cases tok) (auto simp: prefix_Cons)
  next
    case 3
    with assms have "xs2 = []"
      by (cases xs2) (auto simp: prefix_Cons)
    with 3 show ?thesis
      by (auto intro: suffix_imp_sublist)
  qed
next
  assume "sublist tok a \<or> sublist tok b"
  then show "sublist tok (a @ c # b)"
    by (auto simp: sublist_append sublist_Cons_right)
qed

lemma sublist_Cons_absent:
  "c \<notin> set tok \<Longrightarrow> tok \<noteq> [] \<Longrightarrow> sublist tok (c # b) \<longleftrightarrow> sublist tok b"
  using sublist_sep [of c tok "[]" b] by simp

lemma sublist_no_paren:
  "CHR ''('' \<notin> set n \<Longrightarrow> CHR ''('' \<in> set tok \<Longrightarrow> sublist tok n \<longleftrightarrow> False"
  using set_mono_sublist by fastforce

lemma sublist_join: "x \<in> set xs \<Longrightarrow> sublist x (join sep xs)"
proof (induction sep xs rule: join.induct)
  case (1 sep)
  then show ?case by simp
next
  case (2 sep y)
  then show ?case by simp
next
  case (3 sep y z zs)
  show ?case
  proof (cases "x = y")
    case True
    then show ?thesis by simp
  next
    case False
    with 3 have "sublist x (join sep (z # zs))" by simp
    then show ?thesis
      by (auto simp: sublist_append)
  qed
qed

lemma join_quoted_no_token:
  assumes "tok \<noteq> []" and "CHR 0x22 \<notin> set tok" and "CHR '','' \<notin> set tok"
    and "CHR '' '' \<notin> set tok" and "\<forall>e\<in>set es. \<not> sublist tok e"
  shows "\<not> sublist tok (join '', '' (map (\<lambda>e. ''\"'' @ e @ ''\"'') es))"
  using assms(5)
proof (induction es rule: induct_list012)
  case 1
  with assms(1) show ?case by simp
next
  case (2 e)
  with assms(1,2) show ?case
    by (simp add: sublist_Cons_absent sublist_sep)
next
  case (3 e e' es)
  with assms(1-4) show ?case
    by (simp add: sublist_Cons_absent sublist_sep)
qed

lemma enum_text_no_token:
  assumes "tok \<in> set constraint_tokens" and "\<forall>e\<in>set es. \<not> sublist tok e"
  shows "\<not> sublist tok
    (''z.enum(['' @ join '', '' (map (\<lambda>e. ''\"'' @ e @ ''\"'') es) @ ''])'')"
proof -
  have j: "\<not> sublist tok (join '', '' (map (\<lambda>e. ''\"'' @ e @ ''\"'') es))"
    using assms by (intro join_quoted_no_token) (auto simp: constraint_tokens_def)
  from assms(1) j show ?thesis
    unfolding constraint_tokens_def
    by (auto simp: sublist_Cons_right sublist_sep)
qed

lemma format_check_cases:
  "format_check p \<in> {[], ''.datetime()'', ''.date()'', ''.email()'', ''.uuid()'', ''.url()''}"
  by (simp add: format_check_def)

lemma string_base_no_token:
  assumes "tok \<in> {''.regex('', ''.min('', ''.max(''}"
  shows "sublist tok (''z.string()'' @ format_check p @ rest) \<longleftrightarrow> sublist tok rest"
  using format_check_cases [of p] assms
  by (elim insertE emptyE) (simp_all add: sublist_Cons_right)

lemma string_tokens:
  assumes "enum_values p = None" and "\<forall>n\<in>set (numeric_texts p). CHR ''('' \<notin> set n"
    and "pattern_free p"
  shows "(sublist ''.regex('' (convertString p) \<longleftrightarrow> truthy (pattern p) \<noteq> None)
    \<and> (sublist ''.min('' (convertString p) \<longleftrightarrow> minLength p \<noteq> None)
    \<and> (sublist ''.max('' (convertString p) \<longleftrightarrow> maxLength p \<noteq> None)"
proof -
  define rest where "rest =
      (case truthy (pattern p) of Some pat \<Rightarrow> ''.regex(/'' @ pat @ ''/)'' | None \<Rightarrow> [])
      @ (case minLength p of Some n \<Rightarrow> ''.min('' @ n @ '')'' | None \<Rightarrow> [])
      @ (case maxLength p of Some n \<Rightarrow> ''.max('' @ n @ '')'' | None \<Rightarrow> [])"
  have out: "convertString p = ''z.string()'' @ format_check p @ rest"
    using assms(1) by (simp add: convertString_def rest_def)
  have chain: "(sublist ''.regex('' rest \<longleftrightarrow> truthy (pattern p) \<noteq> None)
    \<and> (sublist ''.min('' rest \<longleftrightarrow> minLength p \<noteq> None)
    \<and> (sublist ''.max('' rest \<longleftrightarrow> maxLength p \<noteq> None)"
    using assms(2,3)
    unfolding numeric_texts_def pattern_free_def rest_def
    by (cases "pattern p"; cases "minLength p"; cases "maxLength p")
      (simp_all add: sublist_Cons_right sublist_sep sublist_no_paren)
  show ?thesis
    unfolding out using chain by (simp only: string_base_no_token insert_iff simp_thms)
qed

lemma number_tokens:
  assumes "\<forall>n\<in>set (numeric_texts p). CHR ''('' \<notin> set n"
  shows "(sublist ''.min('' (convertNumber p ty) \<longleftrightarrow> minimum p \<noteq> None)
    \<and> (sublist ''.max('' (convertNumber p ty) \<longleftrightarrow> maximum p \<noteq> None)"
  using assms
  unfolding convertNumber_def numeric_texts_def
  by (cases "minimum p"; cases "maximum p")
    (simp_all add: sublist_Cons_right sublist_sep sublist_no_paren)

lemma array_tokens:
  assumes "\<forall>n\<in>set (numeric_texts p). CHR ''('' \<notin> set n"
  shows "\<exists>chain. fst (convertArray schemas deps p currentPath schemaName isInline) =
        ''z.array('' @ interp (fst (convertType schemas deps (items p) currentPath schemaName
           isInline)) @ '')'' @ chain
      \<and> (sublist ''.min('' chain \<longleftrightarrow> minItems p \<noteq> None)
      \<and> (sublist ''.max('' chain \<longleftrightarrow> maxItems p \<noteq> None)"
  using assms
  unfolding convertArray.simps numeric_texts_def
  by (cases "minItems p"; cases "maxItems p")
    (simp_all add: sublist_Cons_right sublist_sep sublist_no_paren split: prod.split)

section \<open>String nodes with an enumerated literal set\<close>

text \<open>
  The string node \<open>{type: string, enum: [a, b], format: email, pattern: x+, minLength: 1,
  maxLength: 5}\<close>, and a string node whose only literal contains a double quote: its text
  is \<open>a"]).min(1).or(z.enum(["b\<close>, and the node declares no other constraint.
\<close>

definition enum_node :: schema where
  "enum_node = Schema (Some ''string'') None None None None None None None (Some [''a'', ''b''])
     (Some ''email'') (Some ''x+'') (Some ''1'') (Some ''5'') None None None None None None"

definition quoted_enum_node :: schema where
  "quoted_enum_node = Schema (Some ''string'') None None None None None None None
     (Some [''a\"]).min(1).or(z.enum([\"b'']) None None None None None None None None None None"

text \<open>
  C6, as stated, fails: a literal is written between double quotes as it is, so a literal
  that closes the quote and the enum carries a length constraint into the emitted
  expression.
\<close>

theorem enum_literal_carries_constraint:
  "type quoted_enum_node = Some ''string''
   \<and> enum_values quoted_enum_node = Some [''a\"]).min(1).or(z.enum([\"b'']
   \<and> convertType [] Map.empty (Some quoted_enum_node) [] [] False
       = (Str ''z.enum([\"a\"]).min(1).or(z.enum([\"b\"])'', Map.empty)
   \<and> sublist ''.min(''
         (interp (fst (convertType [] Map.empty (Some quoted_enum_node) [] [] False)))"
  by (simp add: quoted_enum_node_def convertType.simps convertString_def sublist_Cons_right)

lemma enum_text_has_token:
  assumes "e \<in> set es" and "sublist tok e"
  shows "sublist tok
    (''z.enum(['' @ join '', '' (map (\<lambda>e. ''\"'' @ e @ ''\"'') es) @ ''])'')"
proof -
  have "sublist (''\"'' @ e @ ''\"'') (join '', '' (map (\<lambda>e. ''\"'' @ e @ ''\"'') es))"
    using assms(1) by (intro sublist_join) simp
  moreover have "sublist e (''\"'' @ e @ ''\"'')"
    by (rule sublist_appendI)
  ultimately have "sublist tok (join '', '' (map (\<lambda>e. ''\"'' @ e @ ''\"'') es))"
    using assms(2) by (meson sublist_order.order.trans)
  then show ?thesis
    by (meson sublist_appendI sublist_order.order.trans)
qed

text \<open>
  C6, amended. A string node (no reference, no composition, type \<open>string\<close>) with an
  enumerated literal set is converted to the enum-of-literals validator built from the
  literals alone: format, pattern and length bounds of the node play no part, and the
  dependencies are unchanged. A format, pattern or length token occurs in the emitted text
  exactly when it occurs in the text of one of the literals.
\<close>

theorem enum_overrides_string_constraints:
  assumes "truthy (ref p) = None" and "allOf p = None" and "oneOf p = None"
    and "anyOf p = None" and "type p = Some ''string''" and "enum_values p = Some es"
  shows "convertType schemas deps (Some p) currentPath schemaName isInline =
      (Str (''z.enum(['' @ join '', '' (map (\<lambda>e. ''\"'' @ e @ ''\"'') es) @ ''])''), deps)
    \<and> (\<forall>tok\<in>set constraint_tokens.
         sublist tok
           (interp (fst (convertType schemas deps (Some p) currentPath schemaName isInline)))
         \<longleftrightarrow> (\<exists>e\<in>set es. sublist tok e))"
proof -
  have eq: "convertType schemas deps (Some p) currentPath schemaName isInline =
      (Str (''z.enum(['' @ join '', '' (map (\<lambda>e. ''\"'' @ e @ ''\"'') es) @ ''])''), deps)"
    using assms by (simp add: convertType.simps convertString_def)
  show ?thesis
    unfolding eq using enum_text_no_token [of _ es] enum_text_has_token [of _ es]
    by (simp; blast)
qed

theorem enum_overrides_string_constraints_witness:
  "convertType [] Map.empty (Some enum_node) [] [] False
     = (Str ''z.enum([\"a\", \"b\"])'', Map.empty)
   \<and> \<not> sublist ''.min(''
         (interp (fst (convertType [] Map.empty (Some enum_node) [] [] False)))
   \<and> \<not> sublist ''.regex(''
         (interp (fst (convertType [] Map.empty (Some enum_node) [] [] False)))
   \<and> \<not> sublist ''.email()''
         (interp (fst (convertType [] Map.empty (Some enum_node) [] [] False)))"
  using enum_overrides_string_constraints
    [of enum_node "[''a'', ''b'']" "[]" Map.empty "[]" "[]" False]
  by (simp add: enum_node_def constraint_tokens_def sublist_Cons_right)

section \<open>Constraints of string, number and array nodes\<close>

text \<open>
  The nodes \<open>{type: string, pattern: ""}\<close>,
  \<open>{type: string, format: uuid, pattern: ^[a-z]+$, minLength: 3}\<close>,
  \<open>{type: integer, maximum: 0.5}\<close> and an array of the second one with \<open>minItems: 1\<close>.
\<close>

definition empty_pattern_node :: schema where
  "empty_pattern_node = Schema (Some ''string'') None None None None None None None None None
     (Some []) None None None None None None None None"

definition constrained_string_node :: schema where
  "constrained_string_node = Schema (Some ''string'') None None None None None None None None
     (Some ''uuid'') (Some ''^[a-z]+$'') (Some ''3'') None None None None None None None"

definition constrained_number_node :: schema where
  "constrained_number_node = Schema (Some ''integer'') None None None None None None None None
     None None None None None (Some ''0.5'') None None None None"

definition constrained_array_node :: schema where
  "constrained_array_node = Schema (Some ''array'') None None (Some constrained_string_node)
     None None None None None None None None None None None (Some ''1'') None None None"

text \<open>
  C7, as stated, fails for a pattern that is declared but empty: \<open>if (property.pattern)\<close>
  is false for the empty string, and no regex constraint is emitted.
\<close>

theorem empty_pattern_no_regex:
  "pattern empty_pattern_node \<noteq> None
   \<and> \<not> sublist ''.regex(''
         (interp (fst (convertType [] Map.empty (Some empty_pattern_node) [] [] False)))"
  by (simp add: empty_pattern_node_def convertType.simps convertString_def format_check_def
      sublist_Cons_right)

text \<open>
  C7, amended. Let a node have no reference and no composition, let the texts of its
  numeric constraints contain no opening parenthesis (no rendering of a number does) and
  let its pattern contain none of the tokens. For a string node without enum, the emitted
  text contains the regex token exactly when a non-empty pattern is declared, the
  \<open>.min(\<close> token exactly when \<open>minLength\<close> is declared and the \<open>.max(\<close> token exactly when
  \<open>maxLength\<close> is declared. For a number or integer node the same holds of \<open>minimum\<close> and
  \<open>maximum\<close>. For an array node the emitted text is the array-of wrapper of the converted
  items followed by a chain that contains \<open>.min(\<close> exactly when \<open>minItems\<close> is declared and
  \<open>.max(\<close> exactly when \<open>maxItems\<close> is declared.
\<close>

theorem declared_constraints_round_trip:
  assumes "truthy (ref p) = None" and "allOf p = None" and "oneOf p = None"
    and "anyOf p = None"
    and "\<forall>n\<in>set (numeric_texts p). CHR ''('' \<notin> set n" and "pattern_free p"
  shows "(type p = Some ''string'' \<and> enum_values p = None \<longrightarrow>
      (sublist ''.regex(''
          (interp (fst (convertType schemas deps (Some p) currentPath schemaName isInline)))
         \<longleftrightarrow> truthy (pattern p) \<noteq> None)
      \<and> (sublist ''.min(''
          (interp (fst (convertType schemas deps (Some p) currentPath schemaName isInline)))
         \<longleftrightarrow> minLength p \<noteq> None)
      \<and> (sublist ''.max(''
          (interp (fst (convertType schemas deps (Some p) currentPath schemaName isInline)))
         \<longleftrightarrow> maxLength p \<noteq> None))
    \<and> (type p = Some ''number'' \<or> type p = Some ''integer'' \<longrightarrow>
      (sublist ''.min(''
          (interp (fst (convertType schemas deps (Some p) currentPath schemaName isInline)))
         \<longleftrightarrow> minimum p \<noteq> None)
      \<and> (sublist ''.max(''
          (interp (fst (convertType schemas deps (Some p) currentPath schemaName isInline)))
         \<longleftrightarrow> maximum p \<noteq> None))
    \<and> (type p = Some ''array'' \<longrightarrow>
      (\<exists>chain.
         interp (fst (convertType schemas deps (Some p) currentPath schemaName isInline)) =
           ''z.array(''
           @ interp (fst (convertType schemas deps (items p) currentPath schemaName isInline))
           @ '')'' @ chain
         \<and> (sublist ''.min('' chain \<longleftrightarrow> minItems p \<noteq> None)
         \<and> (sublist ''.max('' chain \<longleftrightarrow> maxItems p \<noteq> None)))"
proof (intro conjI impI)
  assume t: "type p = Some ''string'' \<and> enum_values p = None"
  then have "interp (fst (convertType schemas deps (Some p) currentPath schemaName isInline))
      = convertString p"
    using assms(1-4) by (simp add: convertType.simps)
  then show "sublist ''.regex(''
          (interp (fst (convertType schemas deps (Some p) currentPath schemaName isInline)))
         \<longleftrightarrow> truthy (pattern p) \<noteq> None"
    and "sublist ''.min(''
          (interp (fst (convertType schemas deps (Some p) currentPath schemaName isInline)))
         \<longleftrightarrow> minLength p \<noteq> None"
    and "sublist ''.max(''
          (interp (fst (convertType schemas deps (Some p) currentPath schemaName isInline)))
         \<longleftrightarrow> maxLength p \<noteq> None"
    using string_tokens [OF _ assms(5,6)] t by simp_all
next
  assume t: "type p = Some ''number'' \<or> type p = Some ''integer''"
  then obtain ty where "interp (fst (convertType schemas deps (Some p) currentPath schemaName
      isInline)) = convertNumber p ty"
    using assms(1-4) by (auto simp: convertType.simps)
  then show "sublist ''.min(''
          (interp (fst (convertType schemas deps (Some p) currentPath schemaName isInline)))
         \<longleftrightarrow> minimum p \<noteq> None"
    and "sublist ''.max(''
          (interp (fst (convertType schemas deps (Some p) currentPath schemaName isInline)))
         \<longleftrightarrow> maximum p \<noteq> None"
    using number_tokens [OF assms(5)] by simp_all
next
  assume t: "type p = Some ''array''"
  then have "interp (fst (convertType schemas deps (Some p) currentPath schemaName isInline))
      = fst (convertArray schemas deps p currentPath schemaName isInline)"
    using assms(1-4) by (simp add: convertType.simps split: prod.split)
  then show "\<exists>chain.
         interp (fst (convertType schemas deps (Some p) currentPath schemaName isInline)) =
           ''z.array(''
           @ interp (fst (convertType schemas deps (items p) currentPath schemaName isInline))
           @ '')'' @ chain
         \<and> (sublist ''.min('' chain \<longleftrightarrow> minItems p \<noteq> None)
         \<and> (sublist ''.max('' chain \<longleftrightarrow> maxItems p \<noteq> None)"
    using array_tokens [OF assms(5), of schemas deps currentPath schemaName isInline] by simp
qed


theorem declared_constraints_round_trip_witness:
  "sublist ''.regex(''
     (interp (fst (convertType [] Map.empty (Some constrained_string_node) [] [] False)))
   \<and> sublist ''.min(''
     (interp (fst (convertType [] Map.empty (Some constrained_string_node) [] [] False)))
   \<and> \<not> sublist ''.max(''
     (interp (fst (convertType [] Map.empty (Some constrained_string_node) [] [] False)))
   \<and> \<not> sublist ''.min(''
     (interp (fst (convertType [] Map.empty (Some constrained_number_node) [] [] False)))
   \<and> sublist ''.max(''
     (interp (fst (convertType [] Map.empty (Some constrained_number_node) [] [] False)))
   \<and> (\<exists>chain.
         interp (fst (convertType [] Map.empty (Some constrained_array_node) [] [] False)) =
           ''z.array(''
           @ interp (fst (convertType [] Map.empty (Some constrained_string_node) [] []
               False))
           @ '')'' @ chain
         \<and> sublist ''.min('' chain \<and> \<not> sublist ''.max('' chain)"
  using declared_constraints_round_trip
      [of constrained_string_node "[]" Map.empty "[]" "[]" False]
    declared_constraints_round_trip
      [of constrained_number_node "[]" Map.empty "[]" "[]" False]
    declared_constraints_round_trip
      [of constrained_array_node "[]" Map.empty "[]" "[]" False]
  by (simp add: constrained_string_node_def constrained_number_node_def
      constrained_array_node_def numeric_texts_def pattern_free_def sublist_Cons_right)

section \<open>The references of a node, as a predicate and as a list\<close>

text \<open>The two descriptions of the references that the converter visits agree.\<close>

lemma refers_visited: "refers s n \<Longrightarrow> n \<in> set (visited s)"
proof (induction rule: refers.induct)
  case (direct s r)
  then show ?case by (simp add: visited.simps [of s])
next
  case (in_allOf s xs x n)
  then show ?case by (auto simp: visited.simps [of s])
next
  case (in_oneOf s xs x n)
  then show ?case by (auto simp: visited.simps [of s])
next
  case (in_anyOf s xs x n)
  then show ?case by (auto simp: visited.simps [of s])
next
  case (in_items s i n)
  then show ?case by (simp add: visited.simps [of s] plain_def)
next
  case (in_properties s ps k v n)
  then show ?case by (force simp: visited.simps [of s] plain_def)
next
  case (in_additionalProperties s ps a n)
  then show ?case by (simp add: visited.simps [of s] plain_def)
qed

lemma visited_refers: "n \<in> set (visited s) \<Longrightarrow> refers s n"
proof (induction s rule: visited.induct)
  case (1 s)
  show ?case
  proof (cases "truthy (ref s)")
    case (Some r)
    with "1.prems" show ?thesis
      by (auto simp: visited.simps [of s] intro: refers.direct)
  next
    case noref: None
    show ?thesis
    proof (cases "allOf s")
      case (Some xs)
      with "1.prems" noref obtain x where "x \<in> set xs" "n \<in> set (visited x)"
        by (auto simp: visited.simps [of s])
      with "1.IH"(6) [OF noref Some] noref Some show ?thesis
        by (blast intro: refers.in_allOf)
    next
      case no_allOf: None
      show ?thesis
      proof (cases "oneOf s")
        case (Some xs)
        with "1.prems" noref no_allOf obtain x where "x \<in> set xs" "n \<in> set (visited x)"
          by (auto simp: visited.simps [of s])
        with "1.IH"(5) [OF noref no_allOf Some] noref no_allOf Some show ?thesis
          by (blast intro: refers.in_oneOf)
      next
        case no_oneOf: None
        show ?thesis
        proof (cases "anyOf s")
          case (Some xs)
          with "1.prems" noref no_allOf no_oneOf
          obtain x where "x \<in> set xs" "n \<in> set (visited x)"
            by (auto simp: visited.simps [of s])
          with "1.IH"(4) [OF noref no_allOf no_oneOf Some] noref no_allOf no_oneOf Some
          show ?thesis
            by (blast intro: refers.in_anyOf)
        next
          case no_anyOf: None
          have p: "plain s"
            using noref no_allOf no_oneOf no_anyOf by (simp add: plain_def)
          note IH = "1.IH"(1-3) [OF noref no_allOf no_oneOf no_anyOf]
          have v: "visited s =
              (if type s = Some ''array''
               then (case items s of Some i \<Rightarrow> visited i | None \<Rightarrow> [])
               else if type s = Some ''object''
               then (case properties s of
                       Some ps \<Rightarrow>
                         concat (map (\<lambda>e. visited (snd e)) ps)
                         @ (case additionalProperties s of
                              Some (Inr a) \<Rightarrow> visited a | _ \<Rightarrow> [])
                     | None \<Rightarrow> [])
               else [])"
            using noref no_allOf no_oneOf no_anyOf
            by (subst visited.simps) (simp split del: if_split)
          from "1.prems" have m: "n \<in> set
              (if type s = Some ''array''
               then (case items s of Some i \<Rightarrow> visited i | None \<Rightarrow> [])
               else if type s = Some ''object''
               then (case properties s of
                       Some ps \<Rightarrow>
                         concat (map (\<lambda>e. visited (snd e)) ps)
                         @ (case additionalProperties s of
                              Some (Inr a) \<Rightarrow> visited a | _ \<Rightarrow> [])
                     | None \<Rightarrow> [])
               else [])"
            unfolding v .
          show ?thesis
          proof (cases "type s = Some ''array''")
            case True
            with m obtain i where "items s = Some i" "n \<in> set (visited i)"
              by (cases "items s") simp_all
            with IH(1) True p show ?thesis by (blast intro: refers.in_items)
          next
            case False
            with m have obj: "type s = Some ''object''"
              by (cases "type s = Some ''object''") simp_all
            with m False obtain ps where ps: "properties s = Some ps"
              by (cases "properties s") simp_all
            from m False obj ps
            have "(\<exists>e\<in>set ps. n \<in> set (visited (snd e)))
              \<or> (\<exists>a. additionalProperties s = Some (Inr a) \<and> n \<in> set (visited a))"
              by (auto split: option.splits sum.splits)
            then show ?thesis
            proof
              assume "\<exists>e\<in>set ps. n \<in> set (visited (snd e))"
              then obtain k v where kv: "(k, v) \<in> set ps" "n \<in> set (visited v)"
                by force
              with IH(2) [OF False obj ps, of "(k, v)"] have "refers v n" by simp
              with kv p obj ps show ?thesis by (blast intro: refers.in_properties)
            next
              assume "\<exists>a. additionalProperties s = Some (Inr a) \<and> n \<in> set (visited a)"
              then obtain a where a: "additionalProperties s = Some (Inr a)"
                "n \<in> set (visited a)"
                by blast
              with IH(3) [OF False obj ps a(1) refl] have "refers a n" by simp
              with a p obj ps show ?thesis by (blast intro: refers.in_additionalProperties)
            qed
          qed
        qed
      qed
    qed
  qed
qed

lemma refers_iff_visited: "refers s n \<longleftrightarrow> n \<in> set (visited s)"
  using refers_visited visited_refers by blast

section \<open>Dependencies recorded by the converter\<close>

lemma getDependencies_track:
  "set (getDependencies (track deps a b) n) =
     (if n = a then insert b (set (getDependencies deps n)) else set (getDependencies deps n))"
  by (auto simp: getDependencies_def track_def set_add_def split: option.splits)

lemma deps_mono:
  "r \<in> set (getDependencies deps n) \<Longrightarrow>
     r \<in> set (getDependencies
       (snd (convertType schemas deps property currentPath schemaName isInline)) n)"
  "r \<in> set (getDependencies deps n) \<Longrightarrow>
     r \<in> set (getDependencies
       (snd (convertList schemas deps xs currentPath schemaName isInline)) n)"
  "r \<in> set (getDependencies deps n) \<Longrightarrow>
     r \<in> set (getDependencies
       (snd (convertArray schemas deps p currentPath schemaName isInline)) n)"
  "r \<in> set (getDependencies deps n) \<Longrightarrow>
     r \<in> set (getDependencies
       (snd (convertProps schemas deps req ps currentPath schemaName isInline)) n)"
  "r \<in> set (getDependencies deps n) \<Longrightarrow>
     r \<in> set (getDependencies
       (snd (convertObject schemas deps p currentPath schemaName isInline)) n)"
proof (induction schemas deps property currentPath schemaName isInline
    and schemas deps xs currentPath schemaName isInline
    and schemas deps p currentPath schemaName isInline
    and schemas deps req ps currentPath schemaName isInline
    and schemas deps p currentPath schemaName isInline
    rule: convertType_convertList_convertArray_convertProps_convertObject.induct)
  case (1 schemas deps property currentPath schemaName isInline)
  show ?case
  proof (cases property)
    case None
    with "1.prems" show ?thesis by (simp add: convertType.simps)
  next
    case (Some p)
    show ?thesis
    proof (cases "truthy (ref p)")
      case present: (Some t)
      define refName where "refName = split_pop t"
      define deps1 where "deps1 =
        (if schemaName \<noteq> [] \<and> refName \<noteq> [] \<and> \<not> isInline
         then track deps schemaName refName else deps)"
      have r1: "r \<in> set (getDependencies deps1 n)"
        using "1.prems" by (auto simp: deps1_def getDependencies_track)
      have unfold: "convertType schemas deps property currentPath schemaName isInline =
        (if refName \<in> set currentPath then (Str (''z.lazy(() => '' @ refName @ '')''), deps1)
         else if isInline \<and> schemas_get schemas refName \<noteq> None
         then convertType schemas deps1 (schemas_get schemas refName) (currentPath @ [refName])
                refName True
         else (Str refName, deps1))"
        unfolding refName_def deps1_def
        by (subst convertType.simps) (simp add: Some present Let_def split del: if_split)
      show ?thesis
      proof (cases "refName \<notin> set currentPath \<and> isInline \<and> schemas_get schemas refName \<noteq> None")
        case True
        then have "r \<in> set (getDependencies (snd (convertType schemas deps1
            (schemas_get schemas refName) (currentPath @ [refName]) refName True)) n)"
          using "1.IH"(6) [OF Some present refName_def deps1_def _ _ r1] by simp
        with True show ?thesis unfolding unfold by simp
      next
        case False
        with r1 show ?thesis unfolding unfold by auto
      qed
    next
      case absent: None
      show ?thesis
        using "1.IH"(1-5) "1.prems" Some absent
        by (subst convertType.simps) (simp add: split_beta split: option.split)
    qed
  qed
next
  case (2 schemas deps currentPath schemaName isInline)
  then show ?case by simp
next
  case (3 schemas deps x xs currentPath schemaName isInline)
  from "3.IH"(1) [OF "3.prems"]
  have a: "r \<in> set (getDependencies
      (snd (convertType schemas deps (Some x) currentPath schemaName isInline)) n)" .
  from "3.IH"(2) [OF prod.collapse a] show ?case
    by (simp add: split_beta)
next
  case (4 schemas deps property currentPath schemaName isInline)
  then show ?case
    by (subst convertArray.simps) (simp add: split_beta)
next
  case (5 schemas deps req currentPath schemaName isInline)
  then show ?case by simp
next
  case (6 schemas deps req key val ps currentPath schemaName isInline)
  from "6.IH"(1) [OF refl "6.prems"]
  have a: "r \<in> set (getDependencies
      (snd (convertType schemas deps (Some val) currentPath schemaName isInline)) n)" .
  from "6.IH"(2) [OF refl prod.collapse a] show ?case
    by (simp add: split_beta Let_def)
next
  case (7 schemas deps property currentPath schemaName isInline)
  show ?case
  proof (cases "properties property")
    case None
    with "7.prems" show ?thesis by (subst convertObject.simps) simp
  next
    case (Some ps)
    from "7.IH"(1) [OF Some "7.prems"]
    have a: "r \<in> set (getDependencies (snd (convertProps schemas deps (required property) ps
        currentPath schemaName isInline)) n)" .
    show ?thesis
    proof (cases "additionalProperties property")
      case None
      with a Some show ?thesis
        by (subst convertObject.simps) (simp add: split_beta Let_def)
    next
      case ap: (Some v)
      show ?thesis
      proof (cases v)
        case (Inl b)
        with a Some ap show ?thesis
          by (subst convertObject.simps) (simp add: split_beta Let_def split: bool.split)
      next
        case (Inr s)
        from "7.IH"(2) [OF Some prod.collapse refl _ Inr a] ap Inr
        have "r \<in> set (getDependencies (snd (convertType schemas
          (snd (convertProps schemas deps (required property) ps currentPath schemaName
             isInline)) (Some s) currentPath schemaName isInline)) n)"
          by simp
        with Some ap Inr show ?thesis
          by (subst convertObject.simps) (simp add: split_beta Let_def)
      qed
    qed
  qed
qed


lemma convertList_records:
  assumes "x \<in> set xs"
    and "\<And>deps. r \<in> set (getDependencies
      (snd (convertType schemas deps (Some x) currentPath schemaName isInline)) n)"
  shows "r \<in> set (getDependencies
      (snd (convertList schemas deps xs currentPath schemaName isInline)) n)"
  using assms(1)
proof (induction xs arbitrary: deps)
  case Nil
  then show ?case by simp
next
  case (Cons y ys)
  show ?case
  proof (cases "x = y")
    case True
    then show ?thesis
      using assms(2) [of deps] by (simp add: split_beta deps_mono(2))
  next
    case False
    with Cons show ?thesis by (simp add: split_beta)
  qed
qed

lemma convertProps_records:
  assumes "(k, v) \<in> set ps"
    and "\<And>deps. r \<in> set (getDependencies
      (snd (convertType schemas deps (Some v) currentPath schemaName isInline)) n)"
  shows "r \<in> set (getDependencies
      (snd (convertProps schemas deps req ps currentPath schemaName isInline)) n)"
  using assms(1)
proof (induction ps arbitrary: deps)
  case Nil
  then show ?case by simp
next
  case (Cons e es)
  obtain k' v' where e: "e = (k', v')" by (cases e)
  show ?case
  proof (cases "(k, v) = e")
    case True
    then show ?thesis
      using assms(2) [of deps] e by (simp add: split_beta Let_def deps_mono(4))
  next
    case False
    with Cons e show ?thesis by (auto simp: split_beta Let_def)
  qed
qed

lemma refers_recorded:
  assumes "refers s r" and "schemaName \<noteq> []" and "r \<noteq> []"
  shows "r \<in> set (getDependencies
    (snd (convertType schemas deps (Some s) currentPath schemaName False)) schemaName)"
  using assms
proof (induction s r arbitrary: deps rule: refers.induct)
  case (direct s t)
  then show ?case
    by (subst convertType.simps) (simp add: Let_def getDependencies_track)
next
  case (in_allOf s xs x n)
  then show ?case
    by (subst convertType.simps) (simp add: split_beta convertList_records)
next
  case (in_oneOf s xs x n)
  then show ?case
    by (subst convertType.simps) (simp add: split_beta convertList_records)
next
  case (in_anyOf s xs x n)
  then show ?case
    by (subst convertType.simps) (simp add: split_beta convertList_records)
next
  case (in_items s i n)
  then show ?case
    by (subst convertType.simps, subst convertArray.simps) (simp add: split_beta plain_def)
next
  case (in_properties s ps k v n)
  then show ?case
    by (subst convertType.simps, subst convertObject.simps)
      (simp add: split_beta plain_def Let_def convertProps_records deps_mono(1)
        split: option.split sum.split bool.split)
next
  case (in_additionalProperties s ps a n)
  then show ?case
    by (subst convertType.simps, subst convertObject.simps)
      (simp add: split_beta plain_def Let_def)
qed



section \<open>One call of \<open>generateSchemaFile\<close>\<close>


lemma generateSchemaFile_processing:
  "generatedSchemas st name = None \<Longrightarrow> name \<in> processingStack st \<Longrightarrow>
   generateSchemaFile schemas name st =
     (None, st\<lparr>console := console st @ [''Detected circular reference for schema: '' @ name]\<rparr>)"
  by (simp add: generateSchemaFile_def)

lemma generateSchemaFile_fresh:
  assumes "generatedSchemas st name = None" and "name \<notin> processingStack st"
    and "schemas_get schemas name = Some schema"
  shows "\<exists>f st'. generateSchemaFile schemas name st = (Some f, st')
    \<and> dirName f = None \<and> fileName f = name @ ''.ts''
    \<and> generatedSchemas st' = (generatedSchemas st)(name \<mapsto> f)
    \<and> processingStack st' = processingStack st
    \<and> console st' = console st
    \<and> typeConverter st' =
        snd (convertType schemas (typeConverter st) (Some schema) [name] name False)
    \<and> (\<forall>d\<in>set (getDependencies (typeConverter st') name).
          schemas_get schemas d \<noteq> None \<longrightarrow> sublist (import_dependency d) (content f))"
  using assms
  by (auto simp: generateSchemaFile_def split_beta Let_def intro!: sublist_join)

section \<open>The run over the component table\<close>

lemma generateSchemaFile_other:
  assumes "n \<noteq> name"
  shows "generatedSchemas (snd (generateSchemaFile schemas name st)) n = generatedSchemas st n"
    and "n \<in> processingStack (snd (generateSchemaFile schemas name st))
      \<longleftrightarrow> n \<in> processingStack st"
  using assms
  by (auto simp: generateSchemaFile_def split_beta Let_def split: option.splits)

lemma forEach_name_fileNames:
  assumes "distinct names"
    and "\<forall>n\<in>set names. generatedSchemas st n = None \<and> schemas_get schemas n \<noteq> None"
  shows "map fileName (fst (forEach_name schemas names st files)) =
    map fileName files
    @ map (\<lambda>n. n @ ''.ts'') (filter (\<lambda>n. n \<notin> processingStack st) names)"
  using assms
proof (induction names arbitrary: st files)
  case Nil
  then show ?case by simp
next
  case (Cons name names)
  obtain r st1 where step: "generateSchemaFile schemas name st = (r, st1)"
    by (cases "generateSchemaFile schemas name st")
  have ne: "n \<noteq> name" if "n \<in> set names" for n
    using that Cons.prems(1) by auto
  have cache: "generatedSchemas st1 n = generatedSchemas st n" if "n \<in> set names" for n
    using generateSchemaFile_other(1) [OF ne [OF that], of schemas st] step by simp
  have stack1: "n \<in> processingStack st1 \<longleftrightarrow> n \<in> processingStack st"
    if "n \<in> set names" for n
    using generateSchemaFile_other(2) [OF ne [OF that], of schemas st] step by simp
  have rest: "\<forall>n\<in>set names. generatedSchemas st1 n = None \<and> schemas_get schemas n \<noteq> None"
    using Cons.prems(2) cache by simp
  have stack: "filter (\<lambda>n. n \<notin> processingStack st1) names
      = filter (\<lambda>n. n \<notin> processingStack st) names"
    using stack1 by (intro filter_cong) simp_all
  note IH = Cons.IH [OF _ rest, unfolded stack]
  show ?case
  proof (cases "name \<in> processingStack st")
    case True
    with Cons.prems step have "r = None"
      by (simp add: generateSchemaFile_processing)
    with True step IH show ?thesis
      using Cons.prems(1) by simp
  next
    case False
    from Cons.prems obtain schema where "schemas_get schemas name = Some schema"
      by auto
    with generateSchemaFile_fresh [of st name schemas schema] False Cons.prems step
    obtain f where "r = Some f" "fileName f = name @ ''.ts''"
      by auto
    with False step IH show ?thesis
      using Cons.prems(1) by simp
  qed
qed


lemma count_fileName:
  assumes "map fileName files = map (\<lambda>n. n @ ''.ts'') names" and "distinct names"
    and "name \<in> set names"
  shows "length (filter (\<lambda>f. fileName f = name @ ''.ts'') files) = 1"
proof -
  have "length (filter (\<lambda>f. fileName f = name @ ''.ts'') files)
      = length (filter (\<lambda>x. x = name @ ''.ts'') (map fileName files))"
    by (simp add: filter_map comp_def)
  also have "\<dots> = length (filter (\<lambda>n. n = name) names)"
    unfolding assms(1) by (simp add: filter_map comp_def)
  also have "\<dots> = 1"
    using assms(2,3) by (induction names) (auto simp: filter_empty_conv)
  finally show ?thesis .
qed

lemma forEach_name_files:
  assumes "\<And>n st g st'. n \<in> set names \<Longrightarrow> generatedSchemas st n = None
      \<Longrightarrow> generateSchemaFile schemas n st = (Some g, st')
      \<Longrightarrow> Q \<lparr>dirName = Some ''_components'', fileName = fileName g, content = content g\<rparr>"
    and "distinct names" and "\<forall>n\<in>set names. generatedSchemas st n = None"
    and "\<forall>f\<in>set files. Q f"
  shows "\<forall>f\<in>set (fst (forEach_name schemas names st files)). Q f"
  using assms
proof (induction names arbitrary: st files)
  case Nil
  then show ?case by simp
next
  case (Cons name names)
  obtain r st1 where step: "generateSchemaFile schemas name st = (r, st1)"
    by (cases "generateSchemaFile schemas name st")
  have cache: "\<forall>n\<in>set names. generatedSchemas st1 n = None"
  proof
    fix n assume n: "n \<in> set names"
    with Cons.prems(2) have "n \<noteq> name" by auto
    from generateSchemaFile_other(1) [OF this, of schemas st] step n Cons.prems(3)
    show "generatedSchemas st1 n = None" by simp
  qed
  have Q: "Q \<lparr>dirName = Some ''_components'', fileName = fileName g, content = content g\<rparr>"
    if "r = Some g" for g
    using Cons.prems(1) [of name st g st1] Cons.prems(3) step that by simp
  have gen: "Q \<lparr>dirName = Some ''_components'', fileName = fileName g, content = content g\<rparr>"
    if "n \<in> set names" and "generatedSchemas st' n = None"
      and "generateSchemaFile schemas n st' = (Some g, st'')" for n st' g st''
    using Cons.prems(1) [of n st' g st''] that by simp
  have IH: "\<forall>f\<in>set (fst (forEach_name schemas names st1 fs)). Q f"
    if "\<forall>f\<in>set fs. Q f" for fs
    using Cons.IH [OF gen _ cache that] Cons.prems(2) by simp
  show ?case
  proof (cases r)
    case None
    with step IH [OF Cons.prems(4)] show ?thesis by simp
  next
    case (Some g)
    with step IH [of "files @ [\<lparr>dirName = Some ''_components'', fileName = fileName g,
        content = content g\<rparr>]"] Q [OF Some] Cons.prems(4)
    show ?thesis by simp
  qed
qed

text \<open>
  The table of two components that reference each other:
  \<open>A = {type: object, properties: {b: {$ref: B}}, required: [b]}\<close> and
  \<open>B = {type: object, properties: {a: {$ref: A}}}\<close>.
\<close>

definition mutual_table :: "(string \<times> schema) list" where
  "mutual_table =
     [(''A'', object_node [(''b'', ref_node ''#/components/schemas/B'')] [''b'']),
      (''B'', object_node [(''a'', ref_node ''#/components/schemas/A'')] [])]"

text \<open>
  C4. The run of a new component generator over a table (with the distinct names of a
  JavaScript object) emits exactly one artifact for each name of the table, so exactly one
  for \<open>A\<close> and one for \<open>B\<close>, and none beyond the names of the table. This holds for every
  table, whatever the components reference, in particular when \<open>A\<close> and \<open>B\<close> reference
  each other.
\<close>

theorem mutual_components_once_each:
  assumes "distinct (map fst schemas)"
    and "map_of schemas A = Some sA" and "map_of schemas B = Some sB"
  shows "length (filter (\<lambda>f. fileName f = A @ ''.ts'')
           (fst (generateComponentSchemas schemas new_ComponentGenerator))) = 1
    \<and> length (filter (\<lambda>f. fileName f = B @ ''.ts'')
           (fst (generateComponentSchemas schemas new_ComponentGenerator))) = 1
    \<and> length (fst (generateComponentSchemas schemas new_ComponentGenerator)) = length schemas"
proof -
  have names: "map fileName (fst (generateComponentSchemas schemas new_ComponentGenerator))
      = map (\<lambda>n. n @ ''.ts'') (map fst schemas)"
    unfolding generateComponentSchemas_def
    using forEach_name_fileNames [OF assms(1), of new_ComponentGenerator schemas "[]"]
    by (simp add: new_ComponentGenerator_def schemas_get_table)
  have "A \<in> set (map fst schemas)" and "B \<in> set (map fst schemas)"
    using assms(2,3) by (auto dest: map_of_SomeD intro: rev_image_eqI)
  then show ?thesis
    using count_fileName [OF names assms(1)] arg_cong [OF names, of length] by simp
qed

theorem mutual_components_once_each_witness:
  "refers (object_node [(''b'', ref_node ''#/components/schemas/B'')] [''b'']) ''B''
   \<and> refers (object_node [(''a'', ref_node ''#/components/schemas/A'')] []) ''A''
   \<and> length (filter (\<lambda>f. fileName f = ''A.ts'')
           (fst (generateComponentSchemas mutual_table new_ComponentGenerator))) = 1
   \<and> length (filter (\<lambda>f. fileName f = ''B.ts'')
           (fst (generateComponentSchemas mutual_table new_ComponentGenerator))) = 1
   \<and> length (fst (generateComponentSchemas mutual_table new_ComponentGenerator)) = 2"
proof -
  have d: "refers (ref_node ''#/components/schemas/B'') ''B''"
    "refers (ref_node ''#/components/schemas/A'') ''A''"
    using refers.direct [of "ref_node ''#/components/schemas/B''" "''#/components/schemas/B''"]
      refers.direct [of "ref_node ''#/components/schemas/A''" "''#/components/schemas/A''"]
    by (simp_all add: ref_node_def split_pop_def)
  have r: "refers (object_node [(''b'', ref_node ''#/components/schemas/B'')] [''b'']) ''B''"
    "refers (object_node [(''a'', ref_node ''#/components/schemas/A'')] []) ''A''"
    using refers.in_properties [OF _ _ _ _ d(1), of _ _ "''b''"]
      refers.in_properties [OF _ _ _ _ d(2), of _ _ "''a''"]
    by (simp_all add: object_node_def plain_def)
  show ?thesis
    using r mutual_components_once_each [of mutual_table "''A''" _ "''B''"]
    by (simp add: mutual_table_def)
qed

text \<open>A generator in which \<open>A\<close> is being generated and nothing has been generated yet.\<close>

definition mid_generation :: component_generator where
  "mid_generation = new_ComponentGenerator\<lparr>processingStack := {''A''}\<rparr>"

text \<open>
  C9. A request for a name that is in \<open>processingStack\<close> (and so has no generated file
  yet) writes the diagnostic to the console and returns no artifact, and changes nothing
  else. The run then goes on: from a generator without generated files, it emits the
  artifact of every name of the table that is not in \<open>processingStack\<close>, in the order of
  the table.
\<close>

theorem named_cycle_skipped:
  assumes "name \<in> processingStack st" and "generatedSchemas st name = None"
    and "distinct (map fst schemas)"
    and "\<forall>n\<in>set (map fst schemas). generatedSchemas st n = None"
  shows "generateSchemaFile schemas name st =
      (None, st\<lparr>console := console st
         @ [''Detected circular reference for schema: '' @ name]\<rparr>)
    \<and> map fileName (fst (generateComponentSchemas schemas st)) =
      map (\<lambda>n. n @ ''.ts'') (filter (\<lambda>n. n \<notin> processingStack st) (map fst schemas))"
proof -
  have "\<forall>n\<in>set (map fst schemas). generatedSchemas st n = None \<and> schemas_get schemas n \<noteq> None"
    using assms(4) schemas_get_table [of _ schemas] by blast
  from forEach_name_fileNames [OF assms(3) this, of "[]"] assms(1,2) show ?thesis
    by (simp add: generateComponentSchemas_def generateSchemaFile_processing)
qed

theorem named_cycle_skipped_witness:
  "''A'' \<in> processingStack mid_generation
   \<and> generateSchemaFile mutual_table ''A'' mid_generation =
      (None, mid_generation\<lparr>console := [''Detected circular reference for schema: A'']\<rparr>)
   \<and> map fileName (fst (generateComponentSchemas mutual_table mid_generation)) = [''B.ts'']"
  using named_cycle_skipped [of "''A''" mid_generation mutual_table]
  by (simp add: mid_generation_def new_ComponentGenerator_def mutual_table_def)

section \<open>A component that references itself\<close>

text \<open>
  The table whose only component has the empty name and references itself, and the table
  \<open>Shape = {type: object, properties: {next: {$ref: Shape}}}\<close>.
\<close>

definition self_named_table :: "(string \<times> schema) list" where
  "self_named_table = [([], ref_node ''#/components/schemas/'')]"

definition self_table :: "(string \<times> schema) list" where
  "self_table =
     [(''Shape'', object_node [(''next'', ref_node ''#/components/schemas/Shape'')] [])]"

text \<open>
  C10, as stated, fails for the component with the empty name: the guard
  \<open>schemaName && refName && !isInline\<close> is false for it, no dependency is recorded and the
  artifact has no import of the component itself.
\<close>

theorem empty_name_no_self_import:
  "refers (ref_node ''#/components/schemas/'') []
   \<and> map_of self_named_table [] = Some (ref_node ''#/components/schemas/'')
   \<and> map content (fst (generateComponentSchemas self_named_table new_ComponentGenerator)) =
      [join [CHR 0x0A]
         [''import { z } from 'zod';'', [], ''/**'', '' * '', '' */'',
          ''export const  = z.lazy(() => );'', ''export type Type = z.infer<typeof >;'', []]]
   \<and> \<not> sublist (import_dependency [])
         (concat (map content
            (fst (generateComponentSchemas self_named_table new_ComponentGenerator))))"
proof -
  have "refers (ref_node ''#/components/schemas/'') []"
    using refers.direct [of "ref_node ''#/components/schemas/''" "''#/components/schemas/''"]
    by (simp add: ref_node_def split_pop_def)
  then show ?thesis
    by (simp add: self_named_table_def generateComponentSchemas_def generateSchemaFile_def
      new_ComponentGenerator_def convertType.simps ref_node_def split_pop_def Let_def
      getDependencies_def generateDescription_def toLowerCase_def toUpperCase_def
      import_dependency_def sublist_Cons_right schemas_get_def)
qed

text \<open>
  C10, amended. For a component with a non-empty name whose node contains a reference to
  that name at a place the converter visits, the conversion of the node with the name on
  the path (so that the reference is a cycle) records the name among its own
  dependencies, the run of a new component generator emits exactly one artifact for the
  component, and the content of that artifact contains the statement that imports the
  component's validator from the component's own file.
\<close>

theorem self_reference_imports_itself:
  assumes "name \<noteq> []" and "distinct (map fst schemas)"
    and "map_of schemas name = Some schema" and "refers schema name"
  shows "name \<in> set (getDependencies
          (snd (convertType schemas deps (Some schema) [name] name False)) name)
    \<and> (\<exists>f. filter (\<lambda>f. fileName f = name @ ''.ts'')
          (fst (generateComponentSchemas schemas new_ComponentGenerator)) = [f]
      \<and> sublist (import_dependency name) (content f))"
proof -
  let ?files = "fst (generateComponentSchemas schemas new_ComponentGenerator)"
  have one: "length (filter (\<lambda>f. fileName f = name @ ''.ts'') ?files) = 1"
  proof -
    have names: "map fileName ?files = map (\<lambda>n. n @ ''.ts'') (map fst schemas)"
      unfolding generateComponentSchemas_def
      using forEach_name_fileNames [OF assms(2), of new_ComponentGenerator schemas "[]"]
      by (simp add: new_ComponentGenerator_def schemas_get_table)
    have "name \<in> set (map fst schemas)"
      using assms(3) by (auto dest: map_of_SomeD intro: rev_image_eqI)
    then show ?thesis
      using count_fileName [OF names assms(2)] by simp
  qed
  then obtain f where f: "filter (\<lambda>f. fileName f = name @ ''.ts'') ?files = [f]"
    by (auto simp: length_Suc_conv)
  have step: "fileName g = name @ ''.ts'' \<longrightarrow> sublist (import_dependency name) (content g)"
    if "generatedSchemas st n = None" and "generateSchemaFile schemas n st = (Some g, st')"
    for n st g st'
  proof
    assume fn: "fileName g = name @ ''.ts''"
    from that have fresh: "n \<notin> processingStack st" "schemas_get schemas n \<noteq> None"
      by (auto simp: generateSchemaFile_def split: if_splits option.splits)
    then obtain s where s: "schemas_get schemas n = Some s" by auto
    from generateSchemaFile_fresh [OF that(1) fresh(1) s] that(2)
    have g: "fileName g = n @ ''.ts''"
      "typeConverter st' = snd (convertType schemas (typeConverter st) (Some s) [n] n False)"
      "\<forall>d\<in>set (getDependencies (typeConverter st') n).
          schemas_get schemas d \<noteq> None \<longrightarrow> sublist (import_dependency d) (content g)"
      by auto
    from g(1) fn have n: "n = name" by simp
    with s schemas_get_own [OF assms(3)] have "s = schema" by simp
    with refers_recorded [OF assms(4,1,1)] g(2) n
    have "name \<in> set (getDependencies (typeConverter st') name)" by simp
    with g(3) n schemas_get_own [OF assms(3)]
    show "sublist (import_dependency name) (content g)" by auto
  qed
  have "\<forall>f\<in>set ?files.
      fileName f = name @ ''.ts'' \<longrightarrow> sublist (import_dependency name) (content f)"
    unfolding generateComponentSchemas_def
    by (rule forEach_name_files [where st = new_ComponentGenerator])
      (use assms(2) step in \<open>auto simp: new_ComponentGenerator_def\<close>)
  moreover from f have "f \<in> set (filter (\<lambda>f. fileName f = name @ ''.ts'') ?files)"
    by simp
  then have "f \<in> set ?files" and "fileName f = name @ ''.ts''"
    by simp_all
  ultimately show ?thesis
    using f refers_recorded [OF assms(4,1,1), of schemas deps "[name]"] by blast
qed

theorem self_reference_imports_itself_witness:
  "''Shape'' \<in> set (getDependencies
      (snd (convertType self_table Map.empty
         (Some (object_node [(''next'', ref_node ''#/components/schemas/Shape'')] []))
         [''Shape''] ''Shape'' False)) ''Shape'')
   \<and> (\<exists>f. filter (\<lambda>f. fileName f = ''Shape.ts'')
          (fst (generateComponentSchemas self_table new_ComponentGenerator)) = [f]
      \<and> sublist ''import { Shape } from './Shape.js';'' (content f))"
proof -
  have d: "refers (ref_node ''#/components/schemas/Shape'') ''Shape''"
    using refers.direct [of "ref_node ''#/components/schemas/Shape''"
        "''#/components/schemas/Shape''"]
    by (simp add: ref_node_def split_pop_def)
  have r: "refers (object_node [(''next'', ref_node ''#/components/schemas/Shape'')] [])
      ''Shape''"
    using refers.in_properties [OF _ _ _ _ d, of _ _ "''next''"]
    by (simp add: object_node_def plain_def)
  show ?thesis
    using self_reference_imports_itself [of "''Shape''" self_table _ Map.empty, OF _ _ _ r]
    by (simp add: self_table_def import_dependency_def)
qed

section \<open>Operations that share an operationId\<close>

text \<open>The responses that an operation declares, none when the field is absent.\<close>

definition the_responses :: "operation \<Rightarrow> (string \<times> response) list" where
  "the_responses operation = (case responses operation of Some rs \<Rightarrow> rs | None \<Rightarrow> [])"

text \<open>The status codes under which an operation stores a response.\<close>

definition stored_codes :: "(string \<times> response) list \<Rightarrow> string set" where
  "stored_codes rs = {code. \<exists>resp. (code, resp) \<in> set rs \<and> response_schema resp \<noteq> None}"

lemma map_of_insert_index:
  "k \<notin> set (map fst obj) \<Longrightarrow> map_of (insert_index k v obj) = (map_of obj)(k \<mapsto> v)"
  by (induction obj) (auto simp: fun_eq_iff)

lemma map_of_append_new:
  "k \<notin> set (map fst obj) \<Longrightarrow> map_of (obj @ [(k, v)]) = (map_of obj)(k \<mapsto> v)"
  by (induction obj) (auto simp: fun_eq_iff)

lemma map_of_js_set:
  "map_of (js_set obj k v) = (if k = ''__proto__'' then map_of obj else (map_of obj)(k \<mapsto> v))"
  unfolding js_set_def
  by (simp add: map_of_insert_index map_of_append_new AList.update_conv' del: map_of_append)

lemma add_response_fields:
  "os_operationId (add_response e opSchema) = os_operationId opSchema"
  "os_summary (add_response e opSchema) = os_summary opSchema"
  "os_method (add_response e opSchema) = os_method opSchema"
  "os_path (add_response e opSchema) = os_path opSchema"
  "os_request (add_response e opSchema) = os_request opSchema"
  by (simp_all add: add_response_def split: prod.split option.split)

lemma fold_add_response_fields:
  "os_operationId (fold add_response rs opSchema) = os_operationId opSchema"
  "os_summary (fold add_response rs opSchema) = os_summary opSchema"
  "os_method (fold add_response rs opSchema) = os_method opSchema"
  "os_path (fold add_response rs opSchema) = os_path opSchema"
  "os_request (fold add_response rs opSchema) = os_request opSchema"
  by (induction rs arbitrary: opSchema) (simp_all add: add_response_fields)

lemma add_response_other:
  "code \<noteq> fst e \<or> response_schema (snd e) = None \<Longrightarrow>
   map_of (os_responses (add_response e opSchema)) code = map_of (os_responses opSchema) code"
  by (auto simp: add_response_def map_of_js_set split: prod.split option.split)

lemma fold_add_response_other:
  "code \<notin> stored_codes rs \<Longrightarrow>
   map_of (os_responses (fold add_response rs opSchema)) code
     = map_of (os_responses opSchema) code"
proof (induction rs arbitrary: opSchema)
  case Nil
  then show ?case by simp
next
  case (Cons e rs)
  from Cons.prems have "code \<notin> stored_codes rs"
    and "code \<noteq> fst e \<or> response_schema (snd e) = None"
    by (cases e; auto simp: stored_codes_def)+
  with Cons.IH [of "add_response e opSchema"] show ?case
    by (simp add: add_response_other)
qed

lemma add_response_stored:
  "response_schema resp = Some s \<Longrightarrow> code \<noteq> ''__proto__'' \<Longrightarrow>
   map_of (os_responses (add_response (code, resp) opSchema)) code =
     Some (case truthy (response_description resp) of
             Some d \<Rightarrow> d | None \<Rightarrow> ''Response '' @ code, s)"
  by (simp add: add_response_def map_of_js_set)

lemma fold_add_response_stored:
  assumes "distinct (map fst rs)" and "(code, resp) \<in> set rs"
    and "response_schema resp = Some s" and "code \<noteq> ''__proto__''"
  shows "map_of (os_responses (fold add_response rs opSchema)) code =
    Some (case truthy (response_description resp) of
            Some d \<Rightarrow> d | None \<Rightarrow> ''Response '' @ code, s)"
  using assms(1,2)
proof (induction rs arbitrary: opSchema)
  case Nil
  then show ?case by simp
next
  case (Cons e rs)
  show ?case
  proof (cases "e = (code, resp)")
    case True
    with Cons.prems(1) have "code \<notin> stored_codes rs"
      by (auto simp: stored_codes_def intro: rev_image_eqI)
    from fold_add_response_other [OF this, of "add_response e opSchema"] True
      add_response_stored [OF assms(3,4), of opSchema]
    show ?thesis by simp
  next
    case False
    with Cons show ?thesis by auto
  qed
qed

lemma process_operation_keys:
  "map_of operationSchemas oid \<noteq> None \<Longrightarrow> truthy (operationId operation) = Some oid \<Longrightarrow>
   map fst (process_operation pathName (method, Some operation) operationSchemas)
     = map fst operationSchemas"
  by (auto simp: process_operation_def Let_def update_keys map_of_eq_None_iff
      split: option.split intro!: map_idI)

lemma process_operation_distinct:
  "distinct (map fst operationSchemas) \<Longrightarrow>
   distinct (map fst (process_operation pathName entry operationSchemas))"
  by (cases entry)
    (auto simp: process_operation_def Let_def distinct_update split: option.split)

lemma fold_process_operation_distinct:
  "distinct (map fst operationSchemas) \<Longrightarrow>
   distinct (map fst (fold (process_operation pathName) entries operationSchemas))"
  by (induction entries arbitrary: operationSchemas) (simp_all add: process_operation_distinct)

lemma collect_operations_distinct: "distinct (map fst (collect_operations ps))"
proof -
  have "distinct (map fst acc) \<Longrightarrow>
      distinct (map fst (fold (\<lambda>pathEntry acc.
        fold (process_operation (fst pathEntry)) (snd pathEntry) acc) ps acc))" for acc
    by (induction ps arbitrary: acc) (simp_all add: fold_process_operation_distinct)
  from this [of "[]"] show ?thesis
    by (simp add: collect_operations_def)
qed

text \<open>
  Two operations with the operationId \<open>op\<close>, declared as \<open>GET /a\<close> and \<open>POST /b\<close>, and the
  record that the first pass builds from the first one alone.
\<close>

definition number_node :: schema where
  "number_node = Schema (Some ''number'') None None None None None None None None None None None
     None None None None None None None"

definition first_operation :: operation where
  "first_operation =
     \<lparr>operationId = Some ''op'', summary = None, requestBody = Some string_node,
      responses = Some [(''200'', \<lparr>response_description = Some ''OK'',
                                   response_schema = Some string_node\<rparr>),
                        (''404'', \<lparr>response_description = None,
                                   response_schema = Some string_node\<rparr>)]\<rparr>"

definition second_operation :: operation where
  "second_operation =
     \<lparr>operationId = Some ''op'', summary = Some ''Second'', requestBody = Some number_node,
      responses = Some [(''200'', \<lparr>response_description = None,
                                   response_schema = Some number_node\<rparr>)]\<rparr>"

definition first_record :: operation_schema where
  "first_record =
     \<lparr>os_operationId = ''op'', os_summary = ''Op'', os_method = ''GET'', os_path = ''/a'',
      os_request = Some string_node,
      os_responses = [(''200'', ''OK'', string_node), (''404'', ''Response 404'', string_node)]\<rparr>"

text \<open>
  C5, as stated, fails: the second entry carries a request body and a response for the
  status code \<open>200\<close>, and both replace what the first entry had stored
  (\<open>opSchema.request = requestSchema\<close> and \<open>opSchema.responses[statusCode] = ...\<close> are
  plain assignments).
\<close>

theorem later_entry_replaces:
  "collect_operations [(''/a'', [(''get'', Some first_operation)])] = [(''op'', first_record)]
   \<and> collect_operations
       [(''/a'', [(''get'', Some first_operation)]), (''/b'', [(''post'', Some second_operation)])]
     = [(''op'', first_record
          \<lparr>os_request := Some number_node,
           os_responses := [(''200'', ''Response 200'', number_node),
                            (''404'', ''Response 404'', string_node)]\<rparr>)]
   \<and> string_node \<noteq> number_node"
  by code_simp

text \<open>
  C5, amended. An entry whose operationId already has a record is merged into that record,
  and no record is added: the operationIds that have a record, and their order, are as
  before, and after the whole first pass every operationId has one record. In the merged
  record operationId, summary, method and path stay those of the first entry; the request
  body is replaced when the entry carries one and kept otherwise; each response of the
  entry that has a schema and a status code other than \<open>__proto__\<close> is stored under its
  status code, in the place of what was stored there, and the responses under all status
  codes for which the entry has no response with a schema are kept. The records of the other
  operationIds are unchanged.
\<close>

theorem merge_same_operationId:
  assumes "map_of operationSchemas oid = Some opSchema"
    and "truthy (operationId operation) = Some oid"
    and "distinct (map fst (the_responses operation))"
  shows "\<exists>merged.
      map_of (process_operation pathName (method, Some operation) operationSchemas) oid
        = Some merged
      \<and> map fst (process_operation pathName (method, Some operation) operationSchemas)
        = map fst operationSchemas
      \<and> distinct (map fst (collect_operations ps))
      \<and> os_operationId merged = os_operationId opSchema
      \<and> os_summary merged = os_summary opSchema
      \<and> os_method merged = os_method opSchema
      \<and> os_path merged = os_path opSchema
      \<and> os_request merged =
          (case requestBody operation of Some r \<Rightarrow> Some r | None \<Rightarrow> os_request opSchema)
      \<and> (\<forall>code. code \<notin> stored_codes (the_responses operation) \<longrightarrow>
            map_of (os_responses merged) code = map_of (os_responses opSchema) code)
      \<and> (\<forall>code resp s. (code, resp) \<in> set (the_responses operation)
              \<and> response_schema resp = Some s \<and> code \<noteq> ''__proto__'' \<longrightarrow>
            map_of (os_responses merged) code =
              Some (case truthy (response_description resp) of
                      Some d \<Rightarrow> d | None \<Rightarrow> ''Response '' @ code, s))
      \<and> (\<forall>other. other \<noteq> oid \<longrightarrow>
            map_of (process_operation pathName (method, Some operation) operationSchemas) other
              = map_of operationSchemas other)"
proof -
  define o1 where "o1 = (case requestBody operation of
      Some requestSchema \<Rightarrow> opSchema\<lparr>os_request := Some requestSchema\<rparr> | None \<Rightarrow> opSchema)"
  define merged where "merged = fold add_response (the_responses operation) o1"
  have step: "process_operation pathName (method, Some operation) operationSchemas
      = AList.update oid merged operationSchemas"
    using assms(1,2)
    by (simp add: process_operation_def Let_def merged_def o1_def the_responses_def
        split: option.split)
  have o1: "os_operationId o1 = os_operationId opSchema" "os_summary o1 = os_summary opSchema"
    "os_method o1 = os_method opSchema" "os_path o1 = os_path opSchema"
    "os_request o1 = (case requestBody operation of Some r \<Rightarrow> Some r
                      | None \<Rightarrow> os_request opSchema)"
    "os_responses o1 = os_responses opSchema"
    by (simp_all add: o1_def split: option.split)
  have keys: "map fst (process_operation pathName (method, Some operation) operationSchemas)
      = map fst operationSchemas"
    by (rule process_operation_keys [of _ oid]) (simp_all add: assms(1,2))
  show ?thesis
    unfolding keys unfolding step
    by (rule exI [of _ merged])
      (simp add: AList.update_conv' merged_def fold_add_response_fields o1
        fold_add_response_other fold_add_response_stored [OF assms(3)]
        collect_operations_distinct)
qed

theorem merge_same_operationId_witness:
  "\<exists>merged.
      map_of (process_operation ''/b'' (''post'', Some second_operation)
                [(''op'', first_record)]) ''op'' = Some merged
      \<and> map fst (process_operation ''/b'' (''post'', Some second_operation)
                [(''op'', first_record)]) = [''op'']
      \<and> os_summary merged = ''Op'' \<and> os_method merged = ''GET'' \<and> os_path merged = ''/a''
      \<and> os_request merged = Some number_node
      \<and> map_of (os_responses merged) ''404'' = Some (''Response 404'', string_node)
      \<and> map_of (os_responses merged) ''200'' = Some (''Response 200'', number_node)"
proof -
  have h1: "map_of [(''op'', first_record)] ''op'' = Some first_record"
    by simp
  have h2: "truthy (operationId second_operation) = Some ''op''"
    by (simp add: second_operation_def)
  have h3: "distinct (map fst (the_responses second_operation))"
    by (simp add: second_operation_def the_responses_def)
  from merge_same_operationId [OF h1 h2 h3, of "''/b''" "''post''" "[]"]
  obtain merged where m: "map_of (process_operation ''/b'' (''post'', Some second_operation)
                [(''op'', first_record)]) ''op'' = Some merged"
    "map fst (process_operation ''/b'' (''post'', Some second_operation)
                [(''op'', first_record)]) = map fst [(''op'', first_record)]"
    "os_summary merged = os_summary first_record" "os_method merged = os_method first_record"
    "os_path merged = os_path first_record"
    "os_request merged = (case requestBody second_operation of Some r \<Rightarrow> Some r
        | None \<Rightarrow> os_request first_record)"
    "\<forall>code. code \<notin> stored_codes (the_responses second_operation) \<longrightarrow>
        map_of (os_responses merged) code = map_of (os_responses first_record) code"
    "\<forall>code resp s. (code, resp) \<in> set (the_responses second_operation)
              \<and> response_schema resp = Some s \<and> code \<noteq> ''__proto__'' \<longrightarrow>
            map_of (os_responses merged) code =
              Some (case truthy (response_description resp) of
                      Some d \<Rightarrow> d | None \<Rightarrow> ''Response '' @ code, s)"
    by blast
  have "''404'' \<notin> stored_codes (the_responses second_operation)"
    by (simp add: stored_codes_def the_responses_def second_operation_def)
  with m(7) have a: "map_of (os_responses merged) ''404'' = Some (''Response 404'', string_node)"
    by (simp add: first_record_def)
  from m(8) have b: "map_of (os_responses merged) ''200'' = Some (''Response 200'', number_node)"
    by (simp add: the_responses_def second_operation_def)
  from m(1-6) a b show ?thesis
    by (intro exI [of _ merged]) (simp add: first_record_def second_operation_def)
qed

section \<open>What a conversion depends on and what it changes\<close>













section \<open>Artifacts that do not depend on earlier ones\<close>












section \<open>The references found in an operation\<close>















section \<open>The file of one operation\<close>










section \<open>The order of the operation records and of their responses\<close>














section \<open>A second run of a component generator\<close>






section \<open>Determinism and order of the whole pipeline\<close>







end
